theory Spec2Isabelle
  imports Complex_Main
begin

section \<open>The EMI calculator of src/src/App.js\<close>

text \<open>
  The component \<^verbatim>\<open>App\<close> keeps five pieces of state (three input strings, the last
  result, the result-visibility flag), three change handlers, the validation
  \<^verbatim>\<open>validateInputs\<close> and the calculation \<^verbatim>\<open>calculateEMI\<close>. Each of them is translated
  below, in the order of the source.

  Numbers. A JavaScript Number is an IEEE double. The model has the special values
  \<open>NaN\<close>, \<open>+Infinity\<close> and \<open>-Infinity\<close> and represents a finite value by a real number;
  \<open>-0\<close> is identified with \<open>+0\<close>. The operators on numbers come in two forms: exact
  (\<open>js_add\<close>, \<open>js_mul\<close>, ...) and rounded to the nearest double after every operation
  (\<open>d_add\<close>, \<open>d_mul\<close>, ...). The parsers, the validation and the state machine use
  exact values. The calculation is given in both forms: \<open>computeEMI\<close> in exact arithmetic
  and \<open>computeEMI_double\<close> with the roundings of the source.

  Strings. A string is a list of characters; the characters of the model are the code
  units below 256.
\<close>

subsection \<open>Number values and the operators the source uses\<close>

datatype jsnum = NaN | NInf | Fin real | PInf

text \<open>\<^verbatim>\<open>isNaN(x)\<close> on a Number.\<close>

definition isNaN :: "jsnum \<Rightarrow> bool" where
  "isNaN x = (x = NaN)"

text \<open>\<^verbatim>\<open>a <= b\<close>: false as soon as one side is NaN.\<close>

fun js_le :: "jsnum \<Rightarrow> jsnum \<Rightarrow> bool" where
  "js_le NaN b = False"
| "js_le a NaN = False"
| "js_le NInf b = True"
| "js_le a PInf = True"
| "js_le (Fin x) (Fin y) = (x \<le> y)"
| "js_le (Fin x) NInf = False"
| "js_le PInf b = False"

text \<open>\<^verbatim>\<open>a < b\<close>.\<close>

fun js_lt :: "jsnum \<Rightarrow> jsnum \<Rightarrow> bool" where
  "js_lt NaN b = False"
| "js_lt a NaN = False"
| "js_lt PInf b = False"
| "js_lt a NInf = False"
| "js_lt (Fin x) (Fin y) = (x < y)"
| "js_lt (Fin x) PInf = True"
| "js_lt NInf b = True"

text \<open>\<^verbatim>\<open>a === b\<close> on Numbers: NaN is equal to nothing.\<close>

definition js_strict_eq :: "jsnum \<Rightarrow> jsnum \<Rightarrow> bool" where
  "js_strict_eq a b = (a \<noteq> NaN \<and> b \<noteq> NaN \<and> a = b)"

fun js_neg :: "jsnum \<Rightarrow> jsnum" where
  "js_neg NaN = NaN"
| "js_neg NInf = PInf"
| "js_neg (Fin x) = Fin (- x)"
| "js_neg PInf = NInf"

text \<open>The sign of a value that is not NaN: \<open>-1\<close>, \<open>0\<close> or \<open>1\<close>.\<close>

fun js_sgn :: "jsnum \<Rightarrow> real" where
  "js_sgn NaN = 0"
| "js_sgn NInf = - 1"
| "js_sgn (Fin x) = sgn x"
| "js_sgn PInf = 1"

text \<open>An infinity of the given sign; NaN for the sign \<open>0\<close>.\<close>

definition js_inf :: "real \<Rightarrow> jsnum" where
  "js_inf s = (if s = 0 then NaN else if 0 < s then PInf else NInf)"

fun js_add :: "jsnum \<Rightarrow> jsnum \<Rightarrow> jsnum" where
  "js_add NaN b = NaN"
| "js_add a NaN = NaN"
| "js_add (Fin x) (Fin y) = Fin (x + y)"
| "js_add PInf NInf = NaN"
| "js_add NInf PInf = NaN"
| "js_add PInf b = PInf"
| "js_add NInf b = NInf"
| "js_add (Fin x) b = b"

definition js_sub :: "jsnum \<Rightarrow> jsnum \<Rightarrow> jsnum" where
  "js_sub a b = js_add a (js_neg b)"

fun js_mul :: "jsnum \<Rightarrow> jsnum \<Rightarrow> jsnum" where
  "js_mul NaN b = NaN"
| "js_mul a NaN = NaN"
| "js_mul (Fin x) (Fin y) = Fin (x * y)"
| "js_mul a b = js_inf (js_sgn a * js_sgn b)"

text \<open>
  Division. A finite value divided by zero is an infinity of the dividend's sign (the
  zero counts as \<open>+0\<close>), and \<open>0 / 0\<close> is NaN.
\<close>

fun js_div :: "jsnum \<Rightarrow> jsnum \<Rightarrow> jsnum" where
  "js_div NaN b = NaN"
| "js_div a NaN = NaN"
| "js_div (Fin x) (Fin y) = (if y = 0 then js_inf (sgn x) else Fin (x / y))"
| "js_div (Fin x) b = Fin 0"
| "js_div a (Fin y) = js_inf (js_sgn a * (if y < 0 then - 1 else 1))"
| "js_div a b = NaN"

text \<open>
  \<^verbatim>\<open>Math.pow(base, exponent)\<close>, case by case as the language standard lists them
  (Number::exponentiate). A finite base with an integral exponent is the exact power;
  a positive base with any other finite exponent is \<open>powr\<close>.
\<close>

definition is_integral :: "real \<Rightarrow> bool" where
  "is_integral e = (of_int \<lfloor>e\<rfloor> = e)"

fun Math_pow :: "jsnum \<Rightarrow> jsnum \<Rightarrow> jsnum" where
  "Math_pow b NaN = NaN"
| "Math_pow b (Fin e) =
     (if e = 0 then Fin 1
      else case b of
        NaN \<Rightarrow> NaN
      | PInf \<Rightarrow> (if 0 < e then PInf else Fin 0)
      | NInf \<Rightarrow> (if 0 < e then (if is_integral e \<and> odd \<lfloor>e\<rfloor> then NInf else PInf) else Fin 0)
      | Fin x \<Rightarrow>
          (if x = 0 then (if 0 < e then Fin 0 else PInf)
           else if is_integral e then Fin (x powi \<lfloor>e\<rfloor>)
           else if x < 0 then NaN
           else Fin (x powr e)))"
| "Math_pow b PInf =
     (case b of
        NaN \<Rightarrow> NaN
      | Fin x \<Rightarrow> (if 1 < \<bar>x\<bar> then PInf else if \<bar>x\<bar> = 1 then NaN else Fin 0)
      | _ \<Rightarrow> PInf)"
| "Math_pow b NInf =
     (case b of
        NaN \<Rightarrow> NaN
      | Fin x \<Rightarrow> (if 1 < \<bar>x\<bar> then Fin 0 else if \<bar>x\<bar> = 1 then NaN else PInf)
      | _ \<Rightarrow> Fin 0)"

subsection \<open>Reading numbers from strings: parseFloat and parseInt\<close>

text \<open>The regular expression class \<^verbatim>\<open>\d\<close> and the grammar's DecimalDigit: \<open>0\<close> to \<open>9\<close>.\<close>

definition is_digit :: "char \<Rightarrow> bool" where
  "is_digit c = (c \<in> set ''0123456789'')"

definition digit_val :: "char \<Rightarrow> nat" where
  "digit_val c = of_char c - 48"

text \<open>The decimal value of a string of digits, most significant digit first.\<close>

definition digits_value :: "string \<Rightarrow> nat" where
  "digits_value ds = foldl (\<lambda>a c. 10 * a + digit_val c) 0 ds"

text \<open>
  White space and line terminators that \<^verbatim>\<open>parseFloat\<close> and \<^verbatim>\<open>parseInt\<close> skip at the
  start. Among the code units below 256 these are TAB, LF, VT, FF, CR, SPACE and NBSP.
\<close>

definition is_ws :: "char \<Rightarrow> bool" where
  "is_ws c = ((of_char c :: nat) \<in> {9, 10, 11, 12, 13, 32, 160})"

text \<open>
  The value of an ExponentPart at the start of a string: \<open>e\<close> or \<open>E\<close>, an optional sign
  and at least one digit. Anything else is no exponent, and counts \<open>0\<close>.
\<close>

definition exponent_part :: "string \<Rightarrow> int" where
  "exponent_part r =
     (case r of
        [] \<Rightarrow> 0
      | c # r1 \<Rightarrow>
          if c = CHR ''e'' \<or> c = CHR ''E'' then
            (case r1 of
               [] \<Rightarrow> 0
             | s # r2 \<Rightarrow>
                 if s = CHR ''+'' then int (digits_value (takeWhile is_digit r2))
                 else if s = CHR ''-'' then - int (digits_value (takeWhile is_digit r2))
                 else int (digits_value (takeWhile is_digit r1)))
          else 0)"

text \<open>
  The longest prefix that is a StrUnsignedDecimalLiteral, and its value:
  \<^verbatim>\<open>Infinity\<close>, digits with an optional fraction and exponent, or a fraction that
  starts with the point. No such prefix: NaN.
\<close>

definition unsigned_literal :: "string \<Rightarrow> jsnum" where
  "unsigned_literal r =
     (if take 8 r = ''Infinity'' then PInf
      else
        let ip = takeWhile is_digit r; r1 = dropWhile is_digit r in
        case r1 of
          [] \<Rightarrow> if ip = [] then NaN else Fin (real (digits_value ip))
        | c # r2 \<Rightarrow>
            if c = CHR ''.'' then
              (let fp = takeWhile is_digit r2; r3 = dropWhile is_digit r2 in
               if ip = [] \<and> fp = [] then NaN
               else Fin ((real (digits_value ip) + real (digits_value fp) / 10 ^ length fp)
                           * 10 powi exponent_part r3))
            else if ip = [] then NaN
            else Fin (real (digits_value ip) * 10 powi exponent_part r1))"

definition parseFloat :: "string \<Rightarrow> jsnum" where
  "parseFloat s =
     (case dropWhile is_ws s of
        [] \<Rightarrow> NaN
      | c # r \<Rightarrow>
          if c = CHR ''+'' then unsigned_literal r
          else if c = CHR ''-'' then js_neg (unsigned_literal r)
          else unsigned_literal (c # r))"

text \<open>
  \<^verbatim>\<open>parseInt(s)\<close> with no radix: white space, an optional sign, then hexadecimal
  digits after \<^verbatim>\<open>0x\<close> or \<^verbatim>\<open>0X\<close> and decimal digits otherwise; NaN when no digit
  follows.
\<close>

definition is_hex_digit :: "char \<Rightarrow> bool" where
  "is_hex_digit c = (c \<in> set ''0123456789abcdefABCDEF'')"

definition hex_val :: "char \<Rightarrow> nat" where
  "hex_val c =
     (if is_digit c then of_char c - 48
      else if c \<in> set ''abcdef'' then of_char c - 87
      else of_char c - 55)"

definition hex_value :: "string \<Rightarrow> nat" where
  "hex_value ds = foldl (\<lambda>a c. 16 * a + hex_val c) 0 ds"

definition unsigned_int :: "string \<Rightarrow> jsnum" where
  "unsigned_int r =
     (if take 2 r = ''0x'' \<or> take 2 r = ''0X'' then
        (let ds = takeWhile is_hex_digit (drop 2 r) in
         if ds = [] then NaN else Fin (real (hex_value ds)))
      else
        (let ds = takeWhile is_digit r in
         if ds = [] then NaN else Fin (real (digits_value ds))))"

definition parseInt :: "string \<Rightarrow> jsnum" where
  "parseInt s =
     (case dropWhile is_ws s of
        [] \<Rightarrow> NaN
      | c # r \<Rightarrow>
          if c = CHR ''+'' then unsigned_int r
          else if c = CHR ''-'' then js_neg (unsigned_int r)
          else unsigned_int (c # r))"

subsection \<open>The two regular expressions of the change handlers\<close>

text \<open>\<^verbatim>\<open>/^\d+$/.test(v)\<close>: one digit or more, and nothing else.\<close>

definition test_digits :: "string \<Rightarrow> bool" where
  "test_digits v = (v \<noteq> [] \<and> list_all is_digit v)"

text \<open>
  \<^verbatim>\<open>/^\d*\.?\d{0,2}$/.test(v)\<close>. After the leading digits the string has ended, or a
  point follows with at most two digits and nothing else. (With no point in the string
  \<^verbatim>\<open>\d*\<close> takes every digit, so the bound of two digits only counts after a point.)
\<close>

definition test_decimal2 :: "string \<Rightarrow> bool" where
  "test_decimal2 v =
     (case dropWhile is_digit v of
        [] \<Rightarrow> True
      | c # f \<Rightarrow> c = CHR ''.'' \<and> list_all is_digit f \<and> length f \<le> 2)"

subsection \<open>State\<close>

text \<open>The object \<^verbatim>\<open>setResult\<close> stores.\<close>

record emi_result =
  res_loanAmount :: jsnum
  monthlyEMI :: jsnum
  totalInterest :: jsnum
  totalPayment :: jsnum

text \<open>The five \<^verbatim>\<open>useState\<close> cells; \<open>None\<close> is the initial \<^verbatim>\<open>null\<close> of \<^verbatim>\<open>result\<close>.\<close>

record state =
  loanAmount :: string
  annualInterestRate :: string
  loanTenure :: string
  result :: "emi_result option"
  showResult :: bool

definition initial_state :: state where
  "initial_state =
     \<lparr>loanAmount = [], annualInterestRate = [], loanTenure = [],
      result = None, showResult = False\<rparr>"

subsection \<open>The change handlers\<close>

text \<open>
  Each handler receives the text of the input field (\<^verbatim>\<open>e.target.value\<close>) and stores it
  when its condition holds; otherwise it does nothing. The conditions are named, one
  per handler.
\<close>

definition loanAmount_accepts :: "string \<Rightarrow> bool" where
  "loanAmount_accepts v = (v = [] \<or> (test_digits v \<and> length v \<le> 7))"

definition handleLoanAmountChange :: "string \<Rightarrow> state \<Rightarrow> state" where
  "handleLoanAmountChange v s = (if loanAmount_accepts v then s\<lparr>loanAmount := v\<rparr> else s)"

definition interestRate_accepts :: "string \<Rightarrow> bool" where
  "interestRate_accepts v = (v = [] \<or> (js_le (parseFloat v) (Fin 100) \<and> test_decimal2 v))"

definition handleInterestRateChange :: "string \<Rightarrow> state \<Rightarrow> state" where
  "handleInterestRateChange v s =
     (if interestRate_accepts v then s\<lparr>annualInterestRate := v\<rparr> else s)"

definition loanTenure_accepts :: "string \<Rightarrow> bool" where
  "loanTenure_accepts v = (v = [] \<or> (test_digits v \<and> js_le (parseInt v) (Fin 360)))"

definition handleLoanTenureChange :: "string \<Rightarrow> state \<Rightarrow> state" where
  "handleLoanTenureChange v s = (if loanTenure_accepts v then s\<lparr>loanTenure := v\<rparr> else s)"

subsection \<open>Validation\<close>

text \<open>
  \<^verbatim>\<open>validateInputs\<close> shows one of three alerts and returns false, or returns true. The
  three failures are named as the specification names them; \<open>Inr ()\<close> is the value
  true.
\<close>

datatype validation_error = MissingField | NotNumeric | NonPositive

definition alert_message :: "validation_error \<Rightarrow> string" where
  "alert_message e =
     (case e of
        MissingField \<Rightarrow> ''Please fill in all fields''
      | NotNumeric \<Rightarrow> ''Please enter valid numeric values''
      | NonPositive \<Rightarrow> ''Please enter positive values only'')"

definition validateInputs :: "state \<Rightarrow> validation_error + unit" where
  "validateInputs s =
     (if loanAmount s = [] \<or> annualInterestRate s = [] \<or> loanTenure s = [] then
        Inl MissingField
      else
        let principal = parseFloat (loanAmount s);
            rate = parseFloat (annualInterestRate s);
            tenure = parseFloat (loanTenure s)
        in
          if isNaN principal \<or> isNaN rate \<or> isNaN tenure then Inl NotNumeric
          else if js_le principal (Fin 0) \<or> js_le rate (Fin 0) \<or> js_le tenure (Fin 0) then
            Inl NonPositive
          else Inr ())"

subsection \<open>Calculation\<close>

text \<open>
  The body of \<^verbatim>\<open>calculateEMI\<close> after the validation: from the three parsed numbers to
  the object it stores.
\<close>

definition computeEMI :: "jsnum \<Rightarrow> jsnum \<Rightarrow> jsnum \<Rightarrow> emi_result" where
  "computeEMI P annualRate N =
     (let R = js_div (js_div annualRate (Fin 12)) (Fin 100) in
      if js_strict_eq R (Fin 0) then
        \<lparr>res_loanAmount = P, monthlyEMI = js_div P N,
         totalInterest = Fin 0, totalPayment = P\<rparr>
      else
        let numerator = js_mul (js_mul P R) (Math_pow (js_add (Fin 1) R) N);
            denominator = js_sub (Math_pow (js_add (Fin 1) R) N) (Fin 1);
            emi = js_div numerator denominator;
            totalPayment = js_mul emi N;
            totalInterest = js_sub totalPayment P
        in
          \<lparr>res_loanAmount = P, monthlyEMI = emi,
           totalInterest = totalInterest, totalPayment = totalPayment\<rparr>)"

definition calculateEMI :: "state \<Rightarrow> state" where
  "calculateEMI s =
     (case validateInputs s of
        Inl e \<Rightarrow> s\<lparr>showResult := False\<rparr>
      | Inr u \<Rightarrow>
          s\<lparr>result :=
               Some (computeEMI (parseFloat (loanAmount s))
                       (parseFloat (annualInterestRate s))
                       (parseFloat (loanTenure s))),
            showResult := True\<rparr>)"

text \<open>The alert a press of the button shows, if any.\<close>

definition calculateEMI_alert :: "state \<Rightarrow> string option" where
  "calculateEMI_alert s =
     (case validateInputs s of Inl e \<Rightarrow> Some (alert_message e) | Inr u \<Rightarrow> None)"

subsection \<open>The arithmetic of doubles\<close>

text \<open>
  The operators above give the exact result of an operation. The source computes with
  doubles: the result of every operation is rounded to the nearest double, ties to the
  even significand. A double has a significand of 53 bits and an exponent from \<open>-1022\<close>
  to \<open>1023\<close>; below \<open>2\<^sup>-\<^sup>1\<^sup>0\<^sup>2\<^sup>2\<close> the doubles are the multiples of \<open>2\<^sup>-\<^sup>1\<^sup>0\<^sup>7\<^sup>4\<close>, and a value that
  rounds to \<open>2\<^sup>1\<^sup>0\<^sup>2\<^sup>4\<close> or more is an infinity.
\<close>

text \<open>The nearest integer, a tie going to the even one.\<close>

definition round_half_even :: "real \<Rightarrow> int" where
  "round_half_even z =
     (let f = \<lfloor>z\<rfloor>; r = z - of_int f
      in if r < 1 / 2 then f else if 1 / 2 < r then f + 1 else if even f then f else f + 1)"

text \<open>
  The nearest double: \<open>e\<close> is the exponent of \<open>x\<close> (at least \<open>-1022\<close>), \<open>q\<close> the distance
  between neighbouring doubles of that exponent.
\<close>

definition round_double :: "real \<Rightarrow> jsnum" where
  "round_double x =
     (if x = 0 then Fin 0
      else
        let e = max \<lfloor>log 2 \<bar>x\<bar>\<rfloor> (- 1022);
            q = 2 powi (e - 52);
            y = of_int (round_half_even (\<bar>x\<bar> / q)) * q
        in if 2 powi 1024 \<le> y then js_inf (sgn x) else Fin (sgn x * y))"

fun to_double :: "jsnum \<Rightarrow> jsnum" where
  "to_double (Fin x) = round_double x"
| "to_double v = v"

text \<open>\<^verbatim>\<open>a + b\<close>, \<open>a - b\<close>, \<^verbatim>\<open>a * b\<close> and \<^verbatim>\<open>a / b\<close> on doubles: the exact result, rounded.\<close>

definition d_add :: "jsnum \<Rightarrow> jsnum \<Rightarrow> jsnum" where
  "d_add a b = to_double (js_add a b)"

definition d_sub :: "jsnum \<Rightarrow> jsnum \<Rightarrow> jsnum" where
  "d_sub a b = to_double (js_sub a b)"

definition d_mul :: "jsnum \<Rightarrow> jsnum \<Rightarrow> jsnum" where
  "d_mul a b = to_double (js_mul a b)"

definition d_div :: "jsnum \<Rightarrow> jsnum \<Rightarrow> jsnum" where
  "d_div a b = to_double (js_div a b)"

text \<open>
  \<^verbatim>\<open>Math.pow\<close> on doubles. The language standard asks for an approximation of the exact
  power and leaves its accuracy to the implementation; the model takes the nearest
  double. Where the exact power is itself a double, as for the base 1, that is the exact
  power.
\<close>

definition Math_pow_double :: "jsnum \<Rightarrow> jsnum \<Rightarrow> jsnum" where
  "Math_pow_double b e = to_double (Math_pow b e)"

text \<open>
  The calculation as the source runs it, on doubles: the text of \<open>computeEMI\<close> with every
  operation rounded. \<open>computeEMI\<close> itself is the calculation in exact arithmetic, the
  value the formula of the source denotes.
\<close>

definition computeEMI_double :: "jsnum \<Rightarrow> jsnum \<Rightarrow> jsnum \<Rightarrow> emi_result" where
  "computeEMI_double P annualRate N =
     (let R = d_div (d_div annualRate (Fin 12)) (Fin 100) in
      if js_strict_eq R (Fin 0) then
        \<lparr>res_loanAmount = P, monthlyEMI = d_div P N,
         totalInterest = Fin 0, totalPayment = P\<rparr>
      else
        let numerator = d_mul (d_mul P R) (Math_pow_double (d_add (Fin 1) R) N);
            denominator = d_sub (Math_pow_double (d_add (Fin 1) R) N) (Fin 1);
            emi = d_div numerator denominator;
            totalPayment = d_mul emi N;
            totalInterest = d_sub totalPayment P
        in
          \<lparr>res_loanAmount = P, monthlyEMI = emi,
           totalInterest = totalInterest, totalPayment = totalPayment\<rparr>)"

subsection \<open>Events\<close>

text \<open>
  The component reacts to four events: a change of one of the three fields, with the
  field's new text, and a press of the button.
\<close>

datatype event =
  ChangeLoanAmount string
| ChangeInterestRate string
| ChangeLoanTenure string
| ClickCalculate

fun handle :: "event \<Rightarrow> state \<Rightarrow> state" where
  "handle (ChangeLoanAmount v) s = handleLoanAmountChange v s"
| "handle (ChangeInterestRate v) s = handleInterestRateChange v s"
| "handle (ChangeLoanTenure v) s = handleLoanTenureChange v s"
| "handle ClickCalculate s = calculateEMI s"

text \<open>The state after a sequence of events, the first event first.\<close>

definition run :: "event list \<Rightarrow> state \<Rightarrow> state" where
  "run evs s = foldl (\<lambda>t e. handle e t) s evs"

subsection \<open>The policy of the input fields, in the specification's words\<close>

text \<open>
  What may stand in each field according to the specification: a principal of at most
  seven digits, a rate that is a decimal with at most two fraction digits and a value
  of at most 100, a tenure that is a string of digits with a value of at most 360. The
  definitions read the text as positional decimal notation; they use neither
  \<^verbatim>\<open>parseFloat\<close> nor the regular expressions of the handlers.
\<close>

definition int_part :: "string \<Rightarrow> string" where
  "int_part v = takeWhile (\<lambda>c. c \<noteq> CHR ''.'') v"

definition frac_part :: "string \<Rightarrow> string" where
  "frac_part v = drop 1 (dropWhile (\<lambda>c. c \<noteq> CHR ''.'') v)"

definition decimal_value :: "string \<Rightarrow> real" where
  "decimal_value v =
     real (digits_value (int_part v))
       + real (digits_value (frac_part v)) / 10 ^ length (frac_part v)"

definition is_decimal2 :: "string \<Rightarrow> bool" where
  "is_decimal2 v =
     (list_all is_digit (int_part v) \<and> list_all is_digit (frac_part v)
      \<and> length (frac_part v) \<le> 2 \<and> (int_part v \<noteq> [] \<or> frac_part v \<noteq> []))"

definition amount_text_ok :: "string \<Rightarrow> bool" where
  "amount_text_ok v =
     (v = [] \<or> (list_all is_digit v \<and> length v \<le> 7 \<and> digits_value v \<le> 9999999))"

definition rate_text_ok :: "string \<Rightarrow> bool" where
  "rate_text_ok v = (v = [] \<or> (is_decimal2 v \<and> decimal_value v \<le> 100))"

definition tenure_text_ok :: "string \<Rightarrow> bool" where
  "tenure_text_ok v = (v = [] \<or> (list_all is_digit v \<and> digits_value v \<le> 360))"

definition fields_within_policy :: "state \<Rightarrow> bool" where
  "fields_within_policy s =
     (amount_text_ok (loanAmount s) \<and> rate_text_ok (annualInterestRate s)
      \<and> tenure_text_ok (loanTenure s))"

subsection \<open>States the handlers have filled\<close>

text \<open>The fields of a state the handlers have filled are values the handlers accept.\<close>

definition fields_accepted :: "state \<Rightarrow> bool" where
  "fields_accepted s =
     (loanAmount_accepts (loanAmount s) \<and> interestRate_accepts (annualInterestRate s)
      \<and> loanTenure_accepts (loanTenure s))"

section \<open>Lemmas\<close>

subsection \<open>Digits and the parsers\<close>

lemma is_digit_not_special:
  assumes "is_digit c"
  shows "c \<noteq> CHR ''.''" "c \<noteq> CHR ''+''" "c \<noteq> CHR ''-''" "c \<noteq> CHR ''I''"
    "c \<noteq> CHR ''x''" "c \<noteq> CHR ''X''" "\<not> is_ws c"
  using assms by (auto simp: is_digit_def is_ws_def)

lemma point_not_special:
  "\<not> is_digit CHR ''.''" "\<not> is_ws CHR ''.''"
  by (simp_all add: is_digit_def is_ws_def)

lemma digit_val_le: "is_digit c \<Longrightarrow> digit_val c \<le> 9"
  by (auto simp: is_digit_def digit_val_def)

lemma digits_value_Nil: "digits_value [] = 0"
  by (simp add: digits_value_def)

lemma digits_value_snoc: "digits_value (v @ [c]) = 10 * digits_value v + digit_val c"
  by (simp add: digits_value_def)

lemma digits_value_bound: "list_all is_digit v \<Longrightarrow> digits_value v < 10 ^ length v"
proof (induction v rule: rev_induct)
  case Nil
  show ?case by (simp add: digits_value_Nil)
next
  case (snoc c v)
  then have "digits_value v < 10 ^ length v" and "digit_val c \<le> 9"
    by (simp_all add: digit_val_le)
  then show ?case by (simp add: digits_value_snoc)
qed

lemma takeWhile_digits: "list_all is_digit v \<Longrightarrow> takeWhile is_digit v = v"
  by (simp add: list_all_iff)

lemma dropWhile_digits: "list_all is_digit v \<Longrightarrow> dropWhile is_digit v = []"
  by (simp add: list_all_iff)

lemma takeWhile_digits_point:
  "list_all is_digit ip \<Longrightarrow> takeWhile is_digit (ip @ CHR ''.'' # f) = ip"
  by (simp add: list_all_iff takeWhile_append2 point_not_special)

lemma dropWhile_digits_point:
  "list_all is_digit ip \<Longrightarrow> dropWhile is_digit (ip @ CHR ''.'' # f) = CHR ''.'' # f"
  by (simp add: list_all_iff dropWhile_append2 point_not_special)

lemma not_Infinity_digits:
  "list_all is_digit ip \<Longrightarrow> take 8 (ip @ CHR ''.'' # f) \<noteq> ''Infinity''"
  by (cases ip) (auto dest: is_digit_not_special)

lemma not_Infinity_digits': "test_digits v \<Longrightarrow> take 8 v \<noteq> ''Infinity''"
  by (cases v) (auto simp: test_digits_def dest: is_digit_not_special)

lemma exponent_part_Nil: "exponent_part [] = 0"
  by (simp add: exponent_part_def)

lemma unsigned_literal_digits:
  assumes "test_digits v"
  shows "unsigned_literal v = Fin (real (digits_value v))"
proof -
  from assms have d: "list_all is_digit v" and ne: "v \<noteq> []"
    by (simp_all add: test_digits_def)
  show ?thesis
    unfolding unsigned_literal_def
    using not_Infinity_digits' [OF assms] ne
    by (simp add: takeWhile_digits [OF d] dropWhile_digits [OF d])
qed

lemma unsigned_literal_decimal:
  assumes ip: "list_all is_digit ip" and f: "list_all is_digit f"
  shows "unsigned_literal (ip @ CHR ''.'' # f) =
     (if ip = [] \<and> f = [] then NaN
      else Fin (real (digits_value ip) + real (digits_value f) / 10 ^ length f))"
  unfolding unsigned_literal_def
  using not_Infinity_digits [OF ip, of f]
  by (simp add: takeWhile_digits_point [OF ip] dropWhile_digits_point [OF ip]
      takeWhile_digits [OF f] dropWhile_digits [OF f] exponent_part_Nil)

lemma parseFloat_digits:
  assumes "test_digits v"
  shows "parseFloat v = Fin (real (digits_value v))"
proof -
  from assms obtain c r where v: "v = c # r" and c: "is_digit c"
    by (cases v) (auto simp: test_digits_def)
  show ?thesis
    using unsigned_literal_digits [OF assms] is_digit_not_special [OF c]
    by (simp add: parseFloat_def v)
qed

lemma parseFloat_decimal:
  assumes ip: "list_all is_digit ip" and f: "list_all is_digit f"
  shows "parseFloat (ip @ CHR ''.'' # f) =
     (if ip = [] \<and> f = [] then NaN
      else Fin (real (digits_value ip) + real (digits_value f) / 10 ^ length f))"
proof (cases ip)
  case Nil
  then show ?thesis
    using unsigned_literal_decimal [OF ip f]
    by (simp add: parseFloat_def point_not_special)
next
  case (Cons c r)
  then have c: "is_digit c" using ip by simp
  show ?thesis
    using unsigned_literal_decimal [OF ip f] is_digit_not_special [OF c]
    by (simp add: parseFloat_def Cons)
qed

lemma parseInt_digits:
  assumes "test_digits v"
  shows "parseInt v = Fin (real (digits_value v))"
proof -
  from assms obtain c r where v: "v = c # r" and c: "is_digit c" and r: "list_all is_digit r"
    by (cases v) (auto simp: test_digits_def)
  have d: "list_all is_digit v" using assms by (simp add: test_digits_def)
  have nx: "take 2 v \<noteq> ''0x''" "take 2 v \<noteq> ''0X''"
    using r by (cases r; auto simp: v dest: is_digit_not_special)+
  have ne: "v \<noteq> []" by (simp add: v)
  have "unsigned_int v = Fin (real (digits_value v))"
    unfolding unsigned_int_def using nx ne by (simp add: takeWhile_digits [OF d])
  then show ?thesis
    using is_digit_not_special [OF c] by (simp add: parseInt_def v)
qed


lemma digits_no_point: "list_all is_digit v \<Longrightarrow> \<forall>c\<in>set v. c \<noteq> CHR ''.''"
  using point_not_special by (auto simp: list_all_iff)

lemma int_part_digits: "list_all is_digit v \<Longrightarrow> int_part v = v"
  using digits_no_point [of v] by (simp add: int_part_def)

lemma frac_part_digits: "list_all is_digit v \<Longrightarrow> frac_part v = []"
proof -
  assume "list_all is_digit v"
  then have "dropWhile (\<lambda>c. c \<noteq> CHR ''.'') v = []"
    using digits_no_point [of v] by simp
  then show ?thesis unfolding frac_part_def by (simp only: drop_Nil)
qed

lemma int_part_point:
  assumes "list_all is_digit ip"
  shows "int_part (ip @ CHR ''.'' # f) = ip"
proof -
  have "takeWhile (\<lambda>c. c \<noteq> CHR ''.'') (ip @ CHR ''.'' # f)
      = ip @ takeWhile (\<lambda>c. c \<noteq> CHR ''.'') (CHR ''.'' # f)"
    using digits_no_point [OF assms] by (intro takeWhile_append2) blast
  then show ?thesis by (simp add: int_part_def)
qed

lemma frac_part_point:
  assumes "list_all is_digit ip"
  shows "frac_part (ip @ CHR ''.'' # f) = f"
proof -
  have "dropWhile (\<lambda>c. c \<noteq> CHR ''.'') (ip @ CHR ''.'' # f)
      = dropWhile (\<lambda>c. c \<noteq> CHR ''.'') (CHR ''.'' # f)"
    using digits_no_point [OF assms] by (intro dropWhile_append2) blast
  then show ?thesis by (simp add: frac_part_def)
qed

text \<open>The two shapes a string matched by the second regular expression has.\<close>

lemma test_decimal2_shape:
  "test_decimal2 v \<longleftrightarrow>
     list_all is_digit v \<or>
     (\<exists>ip f. v = ip @ CHR ''.'' # f \<and> list_all is_digit ip \<and> list_all is_digit f \<and> length f \<le> 2)"
proof
  assume t: "test_decimal2 v"
  have split: "v = takeWhile is_digit v @ dropWhile is_digit v" by simp
  have ip: "list_all is_digit (takeWhile is_digit v)"
    by (auto simp: list_all_iff dest: set_takeWhileD)
  show "list_all is_digit v \<or>
     (\<exists>ip f. v = ip @ CHR ''.'' # f \<and> list_all is_digit ip \<and> list_all is_digit f \<and> length f \<le> 2)"
  proof (cases "dropWhile is_digit v")
    case Nil
    then have "takeWhile is_digit v = v" by simp
    then show ?thesis using ip by (simp add: list_all_iff)
  next
    case (Cons c f)
    with t have "c = CHR ''.''" "list_all is_digit f" "length f \<le> 2"
      by (simp_all add: test_decimal2_def)
    moreover have "v = takeWhile is_digit v @ c # f" using split Cons by simp
    ultimately show ?thesis using ip by blast
  qed
next
  assume "list_all is_digit v \<or>
     (\<exists>ip f. v = ip @ CHR ''.'' # f \<and> list_all is_digit ip \<and> list_all is_digit f \<and> length f \<le> 2)"
  then show "test_decimal2 v"
    by (auto simp: test_decimal2_def dropWhile_digits dropWhile_digits_point)
qed

lemma is_decimal2_shape:
  "list_all is_digit (int_part v) \<and> list_all is_digit (frac_part v) \<and> length (frac_part v) \<le> 2 \<longleftrightarrow>
     list_all is_digit v \<or>
     (\<exists>ip f. v = ip @ CHR ''.'' # f \<and> list_all is_digit ip \<and> list_all is_digit f \<and> length f \<le> 2)"
  (is "?L \<longleftrightarrow> ?R")
proof
  assume L: ?L
  have split: "v = int_part v @ dropWhile (\<lambda>c. c \<noteq> CHR ''.'') v"
    by (simp add: int_part_def)
  show ?R
  proof (cases "dropWhile (\<lambda>c. c \<noteq> CHR ''.'') v")
    case Nil
    then have "int_part v = v" by (simp add: int_part_def)
    then show ?thesis using L by simp
  next
    case (Cons c f)
    have "\<not> (hd (dropWhile (\<lambda>c. c \<noteq> CHR ''.'') v) \<noteq> CHR ''.'')"
      using hd_dropWhile [of "\<lambda>c. c \<noteq> CHR ''.''" v] Cons by simp
    then have c: "c = CHR ''.''" using Cons by simp
    have f: "frac_part v = f" by (simp add: frac_part_def Cons)
    have "v = int_part v @ CHR ''.'' # f" using split Cons c by simp
    then show ?thesis using L f by blast
  qed
next
  assume ?R
  then show ?L
    by (auto simp: int_part_digits frac_part_digits int_part_point frac_part_point)
qed

lemma interestRate_accepts_iff: "interestRate_accepts v \<longleftrightarrow> rate_text_ok v"
proof (cases "v = []")
  case True
  then show ?thesis by (simp add: interestRate_accepts_def rate_text_ok_def)
next
  case ne: False
  show ?thesis
  proof (cases "list_all is_digit v")
    case True
    then have td: "test_digits v" using ne by (simp add: test_digits_def)
    have "test_decimal2 v" using True test_decimal2_shape by blast
    moreover have "is_decimal2 v"
      using True ne by (simp add: is_decimal2_def int_part_digits frac_part_digits)
    moreover have "decimal_value v = real (digits_value v)"
      using True by (simp add: decimal_value_def int_part_digits frac_part_digits digits_value_Nil)
    ultimately show ?thesis
      using ne by (simp add: interestRate_accepts_def rate_text_ok_def parseFloat_digits [OF td])
  next
    case nd: False
    show ?thesis
    proof (cases "\<exists>ip f. v = ip @ CHR ''.'' # f \<and> list_all is_digit ip \<and> list_all is_digit f \<and> length f \<le> 2")
      case True
      then obtain ip f where v: "v = ip @ CHR ''.'' # f" and ip: "list_all is_digit ip"
        and f: "list_all is_digit f" and len: "length f \<le> 2" by blast
      have t: "test_decimal2 v" using True test_decimal2_shape by blast
      have parts: "int_part v = ip" "frac_part v = f"
        using ip by (simp_all add: v int_part_point frac_part_point)
      have pf: "parseFloat v = (if ip = [] \<and> f = [] then NaN else Fin (decimal_value v))"
        unfolding decimal_value_def parts unfolding v by (rule parseFloat_decimal [OF ip f])
      have dec: "is_decimal2 v \<longleftrightarrow> ip \<noteq> [] \<or> f \<noteq> []"
        using ip f len by (simp add: is_decimal2_def parts)
      show ?thesis
        by (cases "ip = [] \<and> f = []")
          (auto simp: interestRate_accepts_def rate_text_ok_def ne t pf dec)
    next
      case False
      then have "\<not> test_decimal2 v" using nd test_decimal2_shape by blast
      moreover have "\<not> is_decimal2 v"
        using False nd is_decimal2_shape [of v] by (auto simp: is_decimal2_def)
      ultimately show ?thesis
        using ne by (simp add: interestRate_accepts_def rate_text_ok_def)
    qed
  qed
qed

lemma loanAmount_accepts_iff: "loanAmount_accepts v \<longleftrightarrow> amount_text_ok v"
proof -
  have "digits_value v \<le> 9999999" if d: "list_all is_digit v" and len: "length v \<le> 7"
  proof -
    have "digits_value v < 10 ^ length v" using d by (rule digits_value_bound)
    also have "(10::nat) ^ length v \<le> 10 ^ 7" using len by (intro power_increasing) auto
    finally show ?thesis by simp
  qed
  then show ?thesis
    by (auto simp: loanAmount_accepts_def amount_text_ok_def test_digits_def)
qed

lemma loanTenure_accepts_iff: "loanTenure_accepts v \<longleftrightarrow> tenure_text_ok v"
proof (cases "test_digits v")
  case True
  then show ?thesis
    by (auto simp: loanTenure_accepts_def tenure_text_ok_def parseInt_digits test_digits_def)
next
  case False
  then show ?thesis
    by (auto simp: loanTenure_accepts_def tenure_text_ok_def test_digits_def)
qed

subsection \<open>The calculation on finite numbers\<close>

lemma is_integral_of_nat: "is_integral (real n)"
  by (simp add: is_integral_def)

lemma Math_pow_Fin_nat:
  assumes "x \<noteq> 0" and "0 < n"
  shows "Math_pow (Fin x) (Fin (real n)) = Fin (x ^ n)"
  using assms by (simp add: is_integral_of_nat power_int_def)

lemma computeEMI_zero_rate:
  "computeEMI P (Fin 0) N =
     \<lparr>res_loanAmount = P, monthlyEMI = js_div P N, totalInterest = Fin 0, totalPayment = P\<rparr>"
  by (simp add: computeEMI_def js_strict_eq_def)

lemma power_gt_one: "0 < r \<Longrightarrow> 0 < n \<Longrightarrow> (1::real) < (1 + r) ^ n"
  by (simp add: one_less_power)

lemma computeEMI_positive_rate:
  fixes P A :: real and n :: nat
  assumes A: "0 < A" and n: "0 < n"
  defines "R \<equiv> A / 12 / 100"
  defines "emi \<equiv> P * R * (1 + R) ^ n / ((1 + R) ^ n - 1)"
  shows "computeEMI (Fin P) (Fin A) (Fin (real n)) =
     \<lparr>res_loanAmount = Fin P, monthlyEMI = Fin emi,
      totalInterest = Fin (emi * real n - P), totalPayment = Fin (emi * real n)\<rparr>"
proof -
  have R: "0 < R" using A by (simp add: R_def)
  have pw: "Math_pow (Fin (1 + R)) (Fin (real n)) = Fin ((1 + R) ^ n)"
    using R n by (intro Math_pow_Fin_nat) auto
  have den: "(1 + R) ^ n - 1 \<noteq> 0" using power_gt_one [OF R n] by simp
  have dv: "js_div (js_div (Fin A) (Fin 12)) (Fin 100) = Fin R"
    by (simp add: R_def)
  show ?thesis
    unfolding computeEMI_def dv Let_def
    using R den by (simp add: js_strict_eq_def pw js_sub_def emi_def del: Math_pow.simps)
qed




subsection \<open>Evaluating the parsers, and the guard of the validation\<close>

lemmas parse_eval =
  parseFloat_def unsigned_literal_def exponent_part_def is_ws_def is_digit_def
  digits_value_def digit_val_def

text \<open>
  What the third check of \<^verbatim>\<open>validateInputs\<close> tests, for three fields that are filled and
  numeric: each of the three numbers against \<^verbatim>\<open><= 0\<close>, the rate included.
\<close>

lemma validateInputs_NonPositive_iff:
  assumes "loanAmount s \<noteq> []" "annualInterestRate s \<noteq> []" "loanTenure s \<noteq> []"
    and "\<not> isNaN (parseFloat (loanAmount s))" "\<not> isNaN (parseFloat (annualInterestRate s))"
      "\<not> isNaN (parseFloat (loanTenure s))"
  shows "validateInputs s = Inl NonPositive \<longleftrightarrow>
     js_le (parseFloat (loanAmount s)) (Fin 0)
     \<or> js_le (parseFloat (annualInterestRate s)) (Fin 0)
     \<or> js_le (parseFloat (loanTenure s)) (Fin 0)"
  using assms by (simp add: validateInputs_def Let_def)

subsection \<open>The state after an event\<close>

lemma calculateEMI_fields:
  "loanAmount (calculateEMI s) = loanAmount s"
  "annualInterestRate (calculateEMI s) = annualInterestRate s"
  "loanTenure (calculateEMI s) = loanTenure s"
  by (simp_all add: calculateEMI_def split: sum.splits)

lemma calculateEMI_failure: "validateInputs s = Inl e \<Longrightarrow> calculateEMI s = s\<lparr>showResult := False\<rparr>"
  by (simp add: calculateEMI_def)

lemma calculateEMI_success:
  "validateInputs s = Inr u \<Longrightarrow>
     showResult (calculateEMI s) \<and> result (calculateEMI s) \<noteq> None"
  by (simp add: calculateEMI_def)

lemma change_keeps_result:
  "result (handleLoanAmountChange v s) = result s"
  "result (handleInterestRateChange v s) = result s"
  "result (handleLoanTenureChange v s) = result s"
  "showResult (handleLoanAmountChange v s) = showResult s"
  "showResult (handleInterestRateChange v s) = showResult s"
  "showResult (handleLoanTenureChange v s) = showResult s"
  by (simp_all add: handleLoanAmountChange_def handleInterestRateChange_def
      handleLoanTenureChange_def)

lemma run_snoc: "run (evs @ [e]) s = handle e (run evs s)"
  by (simp add: run_def)

lemma run_Nil: "run [] s = s"
  by (simp add: run_def)

lemma fields_accepted_initial: "fields_accepted initial_state"
  by (simp add: fields_accepted_def initial_state_def loanAmount_accepts_def
      interestRate_accepts_def loanTenure_accepts_def)

lemma fields_accepted_handle: "fields_accepted s \<Longrightarrow> fields_accepted (handle e s)"
  by (cases e)
    (simp_all add: fields_accepted_def calculateEMI_fields handleLoanAmountChange_def
      handleInterestRateChange_def handleLoanTenureChange_def)

lemma fields_accepted_run: "fields_accepted (run evs initial_state)"
  by (induction evs rule: rev_induct)
    (simp_all add: run_Nil run_snoc fields_accepted_initial fields_accepted_handle)

lemma accepted_parse:
  "loanAmount_accepts a \<Longrightarrow> a \<noteq> [] \<Longrightarrow> \<not> isNaN (parseFloat a)"
  "interestRate_accepts r \<Longrightarrow> r \<noteq> [] \<Longrightarrow> \<not> isNaN (parseFloat r)"
  "loanTenure_accepts t \<Longrightarrow> t \<noteq> [] \<Longrightarrow> \<not> isNaN (parseFloat t)"
proof -
  show "loanAmount_accepts a \<Longrightarrow> a \<noteq> [] \<Longrightarrow> \<not> isNaN (parseFloat a)"
    by (simp add: loanAmount_accepts_def isNaN_def parseFloat_digits)
  show "loanTenure_accepts t \<Longrightarrow> t \<noteq> [] \<Longrightarrow> \<not> isNaN (parseFloat t)"
    by (simp add: loanTenure_accepts_def isNaN_def parseFloat_digits)
  show "interestRate_accepts r \<Longrightarrow> r \<noteq> [] \<Longrightarrow> \<not> isNaN (parseFloat r)"
    by (cases "parseFloat r") (simp_all add: interestRate_accepts_def isNaN_def)
qed

lemma accepted_not_NotNumeric:
  assumes "fields_accepted s"
  shows "validateInputs s \<noteq> Inl NotNumeric"
proof (cases "loanAmount s = [] \<or> annualInterestRate s = [] \<or> loanTenure s = []")
  case True
  then show ?thesis by (simp add: validateInputs_def)
next
  case False
  then have "\<not> isNaN (parseFloat (loanAmount s))"
    "\<not> isNaN (parseFloat (annualInterestRate s))" "\<not> isNaN (parseFloat (loanTenure s))"
    using assms by (simp_all add: fields_accepted_def accepted_parse)
  then show ?thesis using False by (simp add: validateInputs_def Let_def)
qed

subsection \<open>The numbers the calculation receives\<close>

lemma parseFloat_decimal2:
  assumes "is_decimal2 v"
  shows "parseFloat v = Fin (decimal_value v)"
proof -
  have parts: "list_all is_digit (int_part v) \<and> list_all is_digit (frac_part v)
      \<and> length (frac_part v) \<le> 2" and ne: "int_part v \<noteq> [] \<or> frac_part v \<noteq> []"
    using assms by (simp_all add: is_decimal2_def)
  from parts consider (digits) "list_all is_digit v"
    | (point) ip f where "v = ip @ CHR ''.'' # f" "list_all is_digit ip" "list_all is_digit f"
    using is_decimal2_shape [of v] by blast
  then show ?thesis
  proof cases
    case digits
    then have "int_part v = v" "frac_part v = []"
      by (simp_all add: int_part_digits frac_part_digits)
    moreover from this ne have "test_digits v" using digits by (simp add: test_digits_def)
    ultimately show ?thesis
      by (simp add: parseFloat_digits decimal_value_def digits_value_Nil)
  next
    case point
    then have p: "int_part v = ip" "frac_part v = f"
      by (simp_all add: int_part_point frac_part_point)
    then have "ip \<noteq> [] \<or> f \<noteq> []" using ne by simp
    then show ?thesis
      unfolding decimal_value_def p unfolding point(1)
      using parseFloat_decimal [OF point(2,3)] by auto
  qed
qed

lemma decimal_value_hundredths:
  assumes "is_decimal2 v"
  obtains k :: nat where "decimal_value v = real k / 100"
proof -
  have len: "length (frac_part v) \<le> 2" using assms by (simp add: is_decimal2_def)
  define k where "k = 100 * digits_value (int_part v)
      + digits_value (frac_part v) * 10 ^ (2 - length (frac_part v))"
  have "(10::real) ^ (2 - length (frac_part v)) * 10 ^ length (frac_part v) = 10 ^ 2"
    using len by (simp flip: power_add)
  then have "(10::real) ^ (2 - length (frac_part v)) / 100 = 1 / 10 ^ length (frac_part v)"
    by (simp add: field_simps)
  then have "real (digits_value (frac_part v)) / 10 ^ length (frac_part v)
      = real (digits_value (frac_part v)) * 10 ^ (2 - length (frac_part v)) / 100"
    by simp
  then have "decimal_value v = real k / 100"
    by (simp add: decimal_value_def k_def add_divide_distrib)
  then show ?thesis by (rule that)
qed

text \<open>
  The numbers the calculation receives: in a state whose fields the handlers accept and
  whose validation succeeds, the principal is a whole number from 1 to 9999999, the rate
  a whole number of hundredths from 0.01 to 100, the tenure a whole number from 1 to 360.
\<close>

lemma admitted_inputs:
  assumes acc: "fields_accepted s" and ok: "validateInputs s = Inr ()"
  obtains P k n :: nat where
    "parseFloat (loanAmount s) = Fin (real P)" "1 \<le> P" "P \<le> 9999999"
    "parseFloat (annualInterestRate s) = Fin (real k / 100)" "1 \<le> k" "k \<le> 10000"
    "parseFloat (loanTenure s) = Fin (real n)" "1 \<le> n" "n \<le> 360"
proof -
  have ne: "loanAmount s \<noteq> []" "annualInterestRate s \<noteq> []" "loanTenure s \<noteq> []"
    using ok by (auto simp: validateInputs_def split: if_splits)
  then have pos: "\<not> js_le (parseFloat (loanAmount s)) (Fin 0)"
    "\<not> js_le (parseFloat (annualInterestRate s)) (Fin 0)"
    "\<not> js_le (parseFloat (loanTenure s)) (Fin 0)"
    using ok by (auto simp: validateInputs_def Let_def split: if_splits)
  have a: "amount_text_ok (loanAmount s)" "rate_text_ok (annualInterestRate s)"
    "tenure_text_ok (loanTenure s)"
    using acc by (simp_all add: fields_accepted_def loanAmount_accepts_iff
        interestRate_accepts_iff loanTenure_accepts_iff)
  have dP: "test_digits (loanAmount s)" "digits_value (loanAmount s) \<le> 9999999"
    using a(1) ne(1) by (simp_all add: amount_text_ok_def test_digits_def)
  have pP: "parseFloat (loanAmount s) = Fin (real (digits_value (loanAmount s)))"
    using dP(1) by (rule parseFloat_digits)
  have P1: "1 \<le> digits_value (loanAmount s)" using pos(1) by (simp add: pP)
  have dN: "test_digits (loanTenure s)" "digits_value (loanTenure s) \<le> 360"
    using a(3) ne(3) by (simp_all add: tenure_text_ok_def test_digits_def)
  have pN: "parseFloat (loanTenure s) = Fin (real (digits_value (loanTenure s)))"
    using dN(1) by (rule parseFloat_digits)
  have N1: "1 \<le> digits_value (loanTenure s)" using pos(3) by (simp add: pN)
  have dA: "is_decimal2 (annualInterestRate s)" "decimal_value (annualInterestRate s) \<le> 100"
    using a(2) ne(2) by (simp_all add: rate_text_ok_def)
  obtain k :: nat where k: "decimal_value (annualInterestRate s) = real k / 100"
    using decimal_value_hundredths [OF dA(1)] by blast
  have pA: "parseFloat (annualInterestRate s) = Fin (real k / 100)"
    using parseFloat_decimal2 [OF dA(1)] k by simp
  have "0 < real k / 100" using pos(2) by (simp add: pA)
  then have k1: "1 \<le> k" by simp
  have "real k / 100 \<le> 100" using dA(2) k by simp
  then have k2: "k \<le> 10000" by simp
  show ?thesis using that [OF pP P1 dP(2) pA k1 k2 pN N1 dN(2)] .
qed

subsection \<open>Rounding to a double\<close>

lemma round_half_even_near: "\<bar>of_int (round_half_even z) - z\<bar> \<le> 1 / 2"
proof -
  have "of_int \<lfloor>z\<rfloor> \<le> z" "z < of_int \<lfloor>z\<rfloor> + 1" by linarith+
  then show ?thesis by (auto simp: round_half_even_def Let_def)
qed

lemma round_half_even_int:
  assumes "even k" and "0 \<le> t" and "t \<le> 1 / 2"
  shows "round_half_even (of_int k + t) = k"
proof -
  have "\<lfloor>of_int k + t\<rfloor> = k" using assms by linarith
  then show ?thesis using assms by (auto simp: round_half_even_def Let_def)
qed

lemma two_powr_int: "(2::real) powr of_int e = 2 powi e"
  by (rule powr_real_of_int') simp_all

lemma floor_log2_bounds:
  assumes "0 < x"
  shows "2 powi \<lfloor>log 2 x\<rfloor> \<le> x" and "x < 2 powi (\<lfloor>log 2 x\<rfloor> + 1)"
proof -
  have "2 powr of_int \<lfloor>log 2 x\<rfloor> \<le> x \<and> x < 2 powr of_int (\<lfloor>log 2 x\<rfloor> + 1)"
    using floor_log_eq_powr_iff [of x 2 "\<lfloor>log 2 x\<rfloor>"] assms by simp
  then show "2 powi \<lfloor>log 2 x\<rfloor> \<le> x" and "x < 2 powi (\<lfloor>log 2 x\<rfloor> + 1)"
    by (simp_all only: two_powr_int)
qed

lemma floor_log2_unique:
  assumes "2 powi e \<le> x" and "x < 2 powi (e + 1)"
  shows "\<lfloor>log 2 x\<rfloor> = e"
proof -
  have "0 < x" using assms(1) zero_less_power_int [of "2::real" e] by linarith
  moreover have "2 powr of_int e \<le> x \<and> x < 2 powr (of_int e + 1)"
    using assms two_powr_int [of e] two_powr_int [of "e + 1"] by simp
  ultimately show ?thesis using floor_log_eq_powr_iff [of x 2 e] by simp
qed

lemma round_double_normal:
  assumes lo: "2 powi (- 1022) \<le> x" and hi: "x < 2 powi 1023"
  obtains y where "round_double x = Fin y" and "\<bar>y - x\<bar> \<le> x / 2 ^ 53"
proof -
  have x: "0 < x" using lo zero_less_power_int [of "2::real" "- 1022"] by linarith
  define e where "e = \<lfloor>log 2 x\<rfloor>"
  have b: "2 powi e \<le> x" "x < 2 powi (e + 1)"
    unfolding e_def using floor_log2_bounds [OF x] by simp_all
  have e_lo: "- 1022 \<le> e"
  proof (rule ccontr)
    assume "\<not> - 1022 \<le> e"
    then have "e + 1 \<le> - 1022" by simp
    then have "(2::real) powi (e + 1) \<le> 2 powi (- 1022)"
      by (intro power_int_increasing) simp_all
    then show False using lo b(2) by linarith
  qed
  have e_hi: "e \<le> 1022"
  proof (rule ccontr)
    assume "\<not> e \<le> 1022"
    then have "1023 \<le> e" by simp
    then have "(2::real) powi 1023 \<le> 2 powi e"
      by (intro power_int_increasing) simp_all
    then show False using hi b(1) by linarith
  qed
  define q where "q = (2::real) powi (e - 52)"
  have q: "0 < q" by (simp add: q_def)
  have q2: "q * 2 ^ 52 = 2 powi e"
    unfolding q_def by (simp add: power_int_diff)
  define m where "m = round_half_even (x / q)"
  have "\<bar>of_int m - x / q\<bar> \<le> 1 / 2" unfolding m_def by (rule round_half_even_near)
  then have "\<bar>of_int m - x / q\<bar> * q \<le> 1 / 2 * q"
    using q by (intro mult_right_mono) simp_all
  moreover have "of_int m * q - x = (of_int m - x / q) * q" using q by (simp add: field_simps)
  then have "\<bar>of_int m * q - x\<bar> = \<bar>of_int m - x / q\<bar> * q"
    using q by (simp add: abs_mult)
  ultimately have near: "\<bar>of_int m * q - x\<bar> \<le> q / 2" by simp
  have "q / 2 * 2 ^ 53 = 2 powi e" using q2 by simp
  then have "q / 2 * 2 ^ 53 \<le> x" using b(1) by simp
  then have half: "q / 2 \<le> x / 2 ^ 53" by (simp add: field_simps)
  have "x / 2 ^ 53 \<le> x" using x by (simp add: field_simps)
  then have "of_int m * q \<le> x + x" using near half by linarith
  also have "\<dots> < 2 * 2 powi 1023" using hi by simp
  also have "\<dots> = 2 powi 1024" by simp
  finally have no_overflow: "\<not> 2 powi 1024 \<le> of_int m * q" by simp
  have "max \<lfloor>log 2 \<bar>x\<bar>\<rfloor> (- 1022) = e" using x e_lo by (simp add: e_def)
  then have "round_double x = Fin (of_int m * q)"
    using x no_overflow by (simp add: round_double_def Let_def q_def m_def)
  moreover have "\<bar>of_int m * q - x\<bar> \<le> x / 2 ^ 53" using near half by linarith
  ultimately show ?thesis by (rule that)
qed

lemma round_double_one_plus:
  assumes "0 \<le> y" and "y \<le> 1 / 2 ^ 53"
  shows "round_double (1 + y) = Fin 1"
proof -
  have e: "\<lfloor>log 2 (1 + y)\<rfloor> = 0"
    using assms by (intro floor_log2_unique) simp_all
  have m: "round_half_even (2 ^ 52 + y * 2 ^ 52) = 2 ^ 52"
    using round_half_even_int [of "2 ^ 52" "y * 2 ^ 52"] assms by (simp add: field_simps)
  have "\<bar>1 + y\<bar> = 1 + y" "1 + y \<noteq> 0" "sgn (1 + y) = 1" using assms by simp_all
  then show ?thesis
    using m by (simp add: round_double_def Let_def e power_int_minus field_simps)
qed

lemma round_double_overflow:
  assumes "2 powi 1024 \<le> x"
  shows "round_double x = PInf"
proof -
  have x: "0 < x" using assms zero_less_power_int [of "2::real" 1024] by linarith
  define e where "e = \<lfloor>log 2 x\<rfloor>"
  have b: "2 powi e \<le> x" "x < 2 powi (e + 1)"
    unfolding e_def using floor_log2_bounds [OF x] by simp_all
  have e_lo: "1024 \<le> e"
  proof (rule ccontr)
    assume "\<not> 1024 \<le> e"
    then have "e + 1 \<le> 1024" by simp
    then have "(2::real) powi (e + 1) \<le> 2 powi 1024"
      by (intro power_int_increasing) simp_all
    then show False using assms b(2) by linarith
  qed
  define q where "q = (2::real) powi (e - 52)"
  have q: "0 < q" by (simp add: q_def)
  have q2: "q * 2 ^ 52 = 2 powi e"
    unfolding q_def by (simp add: power_int_diff)
  define m where "m = round_half_even (x / q)"
  have "2 ^ 52 \<le> x / q" using b(1) q q2 by (simp add: field_simps)
  moreover have "\<bar>of_int m - x / q\<bar> \<le> 1 / 2" unfolding m_def by (rule round_half_even_near)
  ultimately have "(2 ^ 52 :: real) - 1 / 2 \<le> of_int m" by linarith
  then have "(2 ^ 52 :: real) - 1 < of_int m" by linarith
  then have "(2 ^ 52 :: int) - 1 < m" by (simp flip: of_int_less_iff)
  then have "(2 ^ 52 :: int) \<le> m" by simp
  then have "(2 ^ 52 :: real) \<le> of_int m" by (simp flip: of_int_le_iff)
  then have "2 ^ 52 * q \<le> of_int m * q" using q by (intro mult_right_mono) simp_all
  then have "2 powi 1024 \<le> of_int m * q"
    using q2 power_int_increasing [of 1024 e "2::real"] e_lo by (simp add: mult.commute)
  moreover have "max \<lfloor>log 2 \<bar>x\<bar>\<rfloor> (- 1022) = e" using x e_lo by (simp add: e_def)
  ultimately show ?thesis
    using x by (simp add: round_double_def Let_def q_def m_def js_inf_def)
qed

lemma normal_range:
  fixes x :: real
  assumes "1 / 2 ^ 1000 \<le> x" and "x \<le> 2 ^ 1000"
  shows "2 powi (- 1022) \<le> x" and "x < 2 powi 1023"
proof -
  have "(2::real) powi (- 1022) \<le> 2 powi (- 1000)"
    by (intro power_int_increasing) simp_all
  also have "\<dots> = 1 / 2 ^ 1000" by (simp add: power_int_minus field_simps)
  finally show "2 powi (- 1022) \<le> x" using assms(1) by simp
  have "(2::real) powi 1000 < 2 powi 1023"
    by (intro power_int_strict_increasing) simp_all
  then show "x < 2 powi 1023" using assms(2) by simp
qed

lemma round_double_close:
  fixes x :: real
  assumes "1 / 2 ^ 1000 \<le> x" and "x \<le> 2 ^ 1000"
  obtains y where "round_double x = Fin y" and "\<bar>y - x\<bar> \<le> x / 2 ^ 53"
    and "99 / 100 * x \<le> y" and "y \<le> 101 / 100 * x" and "0 < y"
proof -
  have x: "0 < x" using assms(1) by (smt (verit) divide_pos_pos zero_less_power)
  obtain y where y: "round_double x = Fin y" "\<bar>y - x\<bar> \<le> x / 2 ^ 53"
    using round_double_normal [OF normal_range [OF assms]] by blast
  have "x / 2 ^ 53 \<le> x / 100" using x by (intro divide_left_mono) simp_all
  then have "\<bar>y - x\<bar> \<le> x / 100" using y(2) by linarith
  then have "99 / 100 * x \<le> y" "y \<le> 101 / 100 * x" by linarith+
  moreover from this x have "0 < y" by linarith
  ultimately show ?thesis using y that by blast
qed

lemma round_double_one: "round_double 1 = Fin 1"
  using round_double_one_plus [of 0] by simp




subsection \<open>The calculation on doubles\<close>

text \<open>
  The error of one rounding, and the calculation on doubles followed operation by
  operation for the numbers the calculation receives: every intermediate value is finite
  and within one rounding of the exact result of its operation.
\<close>

lemma round_double_error:
  fixes x :: real
  assumes "\<bar>x\<bar> \<le> 2 ^ 1000"
  obtains y where "round_double x = Fin y" and "\<bar>y - x\<bar> \<le> \<bar>x\<bar> / 2 ^ 53 + 2 powi (- 1075)"
proof (cases "x = 0")
  case True
  then have "round_double x = Fin 0" "\<bar>0 - x\<bar> \<le> \<bar>x\<bar> / 2 ^ 53 + 2 powi (- 1075)"
    by (simp_all add: round_double_def)
  then show ?thesis by (rule that)
next
  case False
  then have ax: "0 < \<bar>x\<bar>" by simp
  define e where "e = max \<lfloor>log 2 \<bar>x\<bar>\<rfloor> (- 1022)"
  define q where "q = (2::real) powi (e - 52)"
  have q: "0 < q" by (simp add: q_def)
  define m where "m = round_half_even (\<bar>x\<bar> / q)"
  have "\<bar>of_int m - \<bar>x\<bar> / q\<bar> \<le> 1 / 2" unfolding m_def by (rule round_half_even_near)
  then have "\<bar>of_int m - \<bar>x\<bar> / q\<bar> * q \<le> 1 / 2 * q"
    using q by (intro mult_right_mono) simp_all
  moreover have "of_int m * q - \<bar>x\<bar> = (of_int m - \<bar>x\<bar> / q) * q" using q by (simp add: field_simps)
  then have "\<bar>of_int m * q - \<bar>x\<bar>\<bar> = \<bar>of_int m - \<bar>x\<bar> / q\<bar> * q"
    using q by (simp add: abs_mult)
  ultimately have near: "\<bar>of_int m * q - \<bar>x\<bar>\<bar> \<le> q / 2" by simp
  have half: "q / 2 \<le> \<bar>x\<bar> / 2 ^ 53 + 2 powi (- 1075)"
  proof (cases "- 1022 \<le> \<lfloor>log 2 \<bar>x\<bar>\<rfloor>")
    case True
    then have "e = \<lfloor>log 2 \<bar>x\<bar>\<rfloor>" by (simp add: e_def)
    then have "2 powi e \<le> \<bar>x\<bar>" using floor_log2_bounds(1) [OF ax] by simp
    moreover have "q * 2 ^ 52 = 2 powi e" unfolding q_def by (simp add: power_int_diff)
    ultimately have "q / 2 * 2 ^ 53 \<le> \<bar>x\<bar>" by simp
    then have "q / 2 \<le> \<bar>x\<bar> / 2 ^ 53" by (simp add: field_simps)
    moreover have "(0::real) \<le> 2 powi (- 1075)" by simp
    ultimately show ?thesis by linarith
  next
    case False
    then have "e = - 1022" by (simp add: e_def)
    then have "q = 2 powi (- 1074)" by (simp add: q_def)
    then have "q / 2 = 2 powi (- 1075)" by (simp add: power_int_minus field_simps)
    then show ?thesis by simp
  qed
  have "(2::real) powi (- 1075) \<le> 2 powi 0" by (intro power_int_increasing) simp_all
  then have small: "(2::real) powi (- 1075) \<le> 1" by simp
  have "\<bar>x\<bar> / 2 ^ 53 \<le> \<bar>x\<bar>" by (simp add: field_simps)
  then have "of_int m * q \<le> \<bar>x\<bar> + \<bar>x\<bar> + 1" using near half small by linarith
  also have "\<dots> \<le> 2 ^ 1000 + 2 ^ 1000 + 2 ^ 1000" using assms by simp
  also have "\<dots> < 2 ^ 1024" by simp
  finally have "of_int m * q < 2 powi 1024" by simp
  then have no_overflow: "\<not> 2 powi 1024 \<le> of_int m * q" by simp
  have "round_double x = Fin (sgn x * (of_int m * q))"
    using False no_overflow by (simp add: round_double_def Let_def q_def m_def e_def)
  moreover have "sgn x * (of_int m * q) - x = sgn x * (of_int m * q - \<bar>x\<bar>)"
    by (simp add: right_diff_distrib sgn_mult_abs flip: mult_sgn_abs)
  then have "\<bar>sgn x * (of_int m * q) - x\<bar> = \<bar>of_int m * q - \<bar>x\<bar>\<bar>"
    using False by (simp add: abs_mult abs_sgn_eq)
  then have "\<bar>sgn x * (of_int m * q) - x\<bar> \<le> \<bar>x\<bar> / 2 ^ 53 + 2 powi (- 1075)"
    using near half by linarith
  ultimately show ?thesis by (rule that)
qed

lemma in_range:
  fixes x :: real
  assumes "1 / 1000000000 \<le> x" and "x \<le> 2 ^ 500"
  shows "1 / 2 ^ 1000 \<le> x" and "x \<le> 2 ^ 1000"
proof -
  have "(1::real) / 2 ^ 1000 \<le> 1 / 1000000000" by (intro divide_left_mono) simp_all
  then show "1 / 2 ^ 1000 \<le> x" using assms(1) by linarith
  have "(2::real) ^ 500 \<le> 2 ^ 1000" by (intro power_increasing) simp_all
  then show "x \<le> 2 ^ 1000" using assms(2) by linarith
qed

lemma in_range_small:
  fixes x :: real
  assumes "1 / 1000000000 \<le> x" and "x \<le> 1000000"
  shows "1 / 2 ^ 1000 \<le> x" and "x \<le> 2 ^ 1000"
proof -
  have "(1000000::real) \<le> 2 ^ 500" by simp
  then have "x \<le> 2 ^ 500" using assms(2) by linarith
  then show "1 / 2 ^ 1000 \<le> x" and "x \<le> 2 ^ 1000" using in_range [OF assms(1)] by simp_all
qed

lemma admitted_chain:
  fixes P k n :: nat
  assumes P: "1 \<le> P" "P \<le> 9999999" and k: "1 \<le> k" "k \<le> 10000" and n: "1 \<le> n" "n \<le> 360"
  obtains emi ti tp where
    "computeEMI_double (Fin (real P)) (round_double (real k / 100)) (Fin (real n)) =
       \<lparr>res_loanAmount = Fin (real P), monthlyEMI = Fin emi,
        totalInterest = Fin ti, totalPayment = Fin tp\<rparr>"
    "0 < emi" "6 * real P / 1000000 \<le> tp"
    "\<bar>tp - emi * real n\<bar> \<le> emi * real n / 2 ^ 53" "99 / 100 * (emi * real n) \<le> tp"
    "\<bar>ti - (tp - real P)\<bar> \<le> \<bar>tp - real P\<bar> / 2 ^ 53 + 2 powi (- 1075)"
proof -
  have P': "1 \<le> real P" "real P \<le> 9999999" using P by simp_all
  have n': "1 \<le> real n" "real n \<le> 360" using n by simp_all
  have k': "1 / 100 \<le> real k / 100" "real k / 100 \<le> 100" using k by simp_all

  obtain A where A: "round_double (real k / 100) = Fin A" "99 / 100 * (real k / 100) \<le> A"
      "A \<le> 101 / 100 * (real k / 100)"
    using round_double_close [OF in_range_small [of "real k / 100"]] k' by force
  have Ab: "99 / 10000 \<le> A" "A \<le> 101" using A(2,3) k' by linarith+
  obtain b where b: "round_double (A / 12) = Fin b" "99 / 100 * (A / 12) \<le> b"
      "b \<le> 101 / 100 * (A / 12)"
    using round_double_close [OF in_range_small [of "A / 12"]] Ab by force
  have bb: "8 / 10000 \<le> b" "b \<le> 9" using b(2,3) Ab by linarith+
  obtain R where R: "round_double (b / 100) = Fin R" "99 / 100 * (b / 100) \<le> R"
      "R \<le> 101 / 100 * (b / 100)"
    using round_double_close [OF in_range_small [of "b / 100"]] bb by force
  have Rb: "7 / 1000000 \<le> R" "R \<le> 1 / 10" using R(2,3) bb by linarith+
  have R0: "R \<noteq> 0" using Rb(1) by auto
  obtain x where x: "round_double (1 + R) = Fin x" "\<bar>x - (1 + R)\<bar> \<le> (1 + R) / 2 ^ 53"
    using round_double_close [OF in_range_small [of "1 + R"]] Rb by force
  have "(1 + R) / 2 ^ 53 \<le> 1 / 1000000" using Rb by simp
  then have xb: "1 + 6 / 1000000 \<le> x" "x \<le> 2" using x(2) Rb by linarith+
  have x1: "1 \<le> x" "x \<noteq> 0" "0 \<le> x" using xb by linarith+

  have "x ^ 1 \<le> x ^ n" using x1(1) n(1) by (intro power_increasing) simp_all
  then have xn_lo: "1 + 6 / 1000000 \<le> x ^ n" using xb(1) by simp
  have "x ^ n \<le> 2 ^ n" using xb(2) x1(3) by (intro power_mono) simp_all
  also have "(2::real) ^ n \<le> 2 ^ 360" using n(2) by (intro power_increasing) simp_all
  finally have xn_hi: "x ^ n \<le> 2 ^ 360" .
  have "(2::real) ^ 360 \<le> 2 ^ 500" by (intro power_increasing) simp_all
  then have xn_hi': "x ^ n \<le> 2 ^ 500" using xn_hi by linarith
  obtain p where p: "round_double (x ^ n) = Fin p" "\<bar>p - x ^ n\<bar> \<le> x ^ n / 2 ^ 53"
      "p \<le> 101 / 100 * x ^ n"
    using round_double_close [OF in_range [of "x ^ n"]] xn_lo xn_hi' by force
  have "x ^ n / 2 ^ 53 \<le> x ^ n / 10000000" using xn_lo by (intro divide_left_mono) simp_all
  then have "\<bar>p - x ^ n\<bar> \<le> x ^ n / 10000000" using p(2) by linarith
  then have p_lo: "1 + 5 / 1000000 \<le> p" using xn_lo by linarith
  have p_hi: "p \<le> 2 ^ 361" using p(3) xn_hi by simp
  have p0: "0 < p" using p_lo by linarith
  have "(2::real) ^ 361 \<le> 2 ^ 500" by (intro power_increasing) simp_all
  then have t_rng: "1 / 1000000000 \<le> p - 1" "p - 1 \<le> 2 ^ 500" using p_lo p_hi by linarith+
  obtain den where den: "round_double (p - 1) = Fin den" "99 / 100 * (p - 1) \<le> den"
      "den \<le> 101 / 100 * (p - 1)"
    using round_double_close [OF in_range [OF t_rng]] by blast
  have den_lo: "4 / 1000000 \<le> den" using den(2) p_lo by argo
  have den_hi: "den \<le> 101 / 100 * p" using den(3) by argo
  have den0: "0 < den" using den_lo by linarith

  have PR_lo: "7 / 1000000 \<le> real P * R"
  proof -
    have "1 * R \<le> real P * R" using P'(1) Rb(1) by (intro mult_right_mono) simp_all
    then have "R \<le> real P * R" by simp
    then show ?thesis using Rb(1) by linarith
  qed
  have PR_hi: "real P * R \<le> 1000000"
  proof -
    have "real P * R \<le> 9999999 * (1 / 10)" using P' Rb by (intro mult_mono) simp_all
    then show ?thesis by linarith
  qed
  have PR_rng: "1 / 1000000000 \<le> real P * R" "real P * R \<le> 1000000"
    using PR_lo PR_hi by linarith+
  obtain c where c: "round_double (real P * R) = Fin c" "99 / 100 * (real P * R) \<le> c"
      "c \<le> 101 / 100 * (real P * R)"
    using round_double_close [OF in_range_small [OF PR_rng]] by blast
  have c_lo: "6 / 1000000 \<le> c" using c(2) PR_lo by linarith
  have "c \<le> 1010000" using c(3) PR_hi by linarith
  moreover have "(1010000::real) \<le> 2 ^ 21" by simp
  ultimately have c_hi: "c \<le> 2 ^ 21" by linarith
  have c0: "0 < c" using c_lo by linarith
  note cb = c_lo c_hi c0
  have cp_lo: "6 / 1000000 \<le> c * p"
  proof -
    have "c * 1 \<le> c * p" using cb(3) p_lo by (intro mult_left_mono) simp_all
    then have "c \<le> c * p" by simp
    then show ?thesis using cb(1) by linarith
  qed
  have cp_hi: "c * p \<le> 2 ^ 382"
  proof -
    have "c * p \<le> 2 ^ 21 * 2 ^ 361" using cb p_hi p0 by (intro mult_mono) simp_all
    then show ?thesis by (simp flip: power_add)
  qed
  have "(2::real) ^ 382 \<le> 2 ^ 500" by (intro power_increasing) simp_all
  then have cp_rng: "1 / 1000000000 \<le> c * p" "c * p \<le> 2 ^ 500" using cp_lo cp_hi by linarith+
  obtain num where num: "round_double (c * p) = Fin num" "99 / 100 * (c * p) \<le> num"
      "num \<le> 101 / 100 * (c * p)"
    using round_double_close [OF in_range [OF cp_rng]] by blast
  have num_hi: "num \<le> 2 ^ 383" using num(3) cp_hi by simp

  have q_lo: "98 / 100 * c \<le> num / den"
  proof -
    have "98 / 100 * c * den \<le> 98 / 100 * c * (101 / 100 * p)"
      using den_hi cb(3) by (intro mult_left_mono) simp_all
    also have "\<dots> \<le> 99 / 100 * (c * p)" using cb(3) p0 by (simp add: field_simps)
    also have "\<dots> \<le> num" by (rule num(2))
    finally show ?thesis using den0 by (simp add: pos_le_divide_eq)
  qed
  have q_hi: "num / den \<le> 2 ^ 401"
  proof -
    have "num \<le> 2 ^ 383 * (2 ^ 18 * den)"
    proof -
      have "(1::real) \<le> 2 ^ 18 * (4 / 1000000)" by simp
      also have "\<dots> \<le> 2 ^ 18 * den" using den_lo by (intro mult_left_mono) simp_all
      finally have "2 ^ 383 * 1 \<le> 2 ^ 383 * (2 ^ 18 * den)" by (intro mult_left_mono) simp_all
      then show ?thesis using num_hi by linarith
    qed
    then have "num \<le> 2 ^ 401 * den" by (simp add: mult.assoc [symmetric] flip: power_add)
    then show ?thesis using den0 by (simp add: pos_divide_le_eq)
  qed
  have q_lo': "5 / 1000000 \<le> num / den" using q_lo cb(1) by linarith
  have "(2::real) ^ 401 \<le> 2 ^ 500" by (intro power_increasing) simp_all
  then have q_rng: "1 / 1000000000 \<le> num / den" "num / den \<le> 2 ^ 500" using q_lo' q_hi by linarith+
  obtain emi where emi: "round_double (num / den) = Fin emi" "99 / 100 * (num / den) \<le> emi"
      "emi \<le> 101 / 100 * (num / den)"
    using round_double_close [OF in_range [OF q_rng]] by blast
  have emi_lo: "96 / 100 * (real P * R) \<le> emi" using emi(2) q_lo c(2) PR_lo by argo
  have emi_lo': "4 / 1000000 \<le> emi" using emi(2) q_lo' by argo
  have emi_hi: "emi \<le> 2 ^ 402" using emi(3) q_hi by simp
  have emi0: "0 < emi" using emi_lo' by argo

  have m_lo: "emi \<le> emi * real n"
  proof -
    have "emi * 1 \<le> emi * real n" using emi0 n'(1) by (intro mult_left_mono) simp_all
    then show ?thesis by (simp only: mult_1_right)
  qed
  have m_hi: "emi * real n \<le> 2 ^ 411"
  proof -
    have "emi * real n \<le> 2 ^ 402 * 360" using emi_hi emi0 n' by (intro mult_mono) simp_all
    also have "\<dots> \<le> 2 ^ 402 * 2 ^ 9" by simp
    finally show ?thesis by (simp flip: power_add)
  qed
  have "(2::real) ^ 411 \<le> 2 ^ 500" by (intro power_increasing) simp_all
  then have m_rng: "1 / 1000000000 \<le> emi * real n" "emi * real n \<le> 2 ^ 500"
    using m_lo m_hi emi_lo' by argo+
  obtain tp where tp: "round_double (emi * real n) = Fin tp"
      "\<bar>tp - emi * real n\<bar> \<le> emi * real n / 2 ^ 53" "99 / 100 * (emi * real n) \<le> tp"
      "tp \<le> 101 / 100 * (emi * real n)"
    using round_double_close [OF in_range [OF m_rng]] by blast
  have tp_lo: "6 * real P / 1000000 \<le> tp"
  proof -
    have "real P * (7 / 1000000) \<le> real P * R" using Rb(1) P'(1) by (intro mult_left_mono) simp_all
    then have "96 / 100 * (real P * (7 / 1000000)) \<le> emi" using emi_lo by argo
    then have "99 / 100 * (96 / 100 * (real P * (7 / 1000000))) \<le> tp" using tp(3) m_lo by argo
    then show ?thesis using P'(1) by argo
  qed
  have tp_hi: "tp \<le> 2 ^ 412" using tp(4) m_hi by simp

  have "\<bar>tp - real P\<bar> \<le> tp + real P" using tp_lo P'(1) by (simp add: abs_le_iff)
  also have "\<dots> \<le> 2 ^ 412 + 9999999" using tp_hi P'(2) by argo
  also have "\<dots> \<le> (2::real) ^ 1000" by simp
  finally have d_rng: "\<bar>tp - real P\<bar> \<le> 2 ^ 1000" .
  obtain ti where ti: "round_double (tp - real P) = Fin ti"
      "\<bar>ti - (tp - real P)\<bar> \<le> \<bar>tp - real P\<bar> / 2 ^ 53 + 2 powi (- 1075)"
    using round_double_error [OF d_rng] by blast

  have d1: "d_div (Fin A) (Fin 12) = Fin b" by (simp add: d_div_def b(1))
  have d2: "d_div (Fin b) (Fin 100) = Fin R" by (simp add: d_div_def R(1))
  have ad: "d_add (Fin 1) (Fin R) = Fin x" by (simp add: d_add_def x(1))
  have pw: "Math_pow_double (Fin x) (Fin (real n)) = Fin p"
    unfolding Math_pow_double_def using Math_pow_Fin_nat [of x n] x1(2) n(1)
    by (simp add: p(1) del: Math_pow.simps)
  have m1: "d_mul (Fin (real P)) (Fin R) = Fin c" by (simp add: d_mul_def c(1))
  have m2: "d_mul (Fin c) (Fin p) = Fin num" by (simp add: d_mul_def num(1))
  have sb: "d_sub (Fin p) (Fin 1) = Fin den" by (simp add: d_sub_def js_sub_def den(1))
  have dv: "d_div (Fin num) (Fin den) = Fin emi" using den0 by (simp add: d_div_def emi(1))
  have tpf: "d_mul (Fin emi) (Fin (real n)) = Fin tp" by (simp add: d_mul_def tp(1))
  have tif: "d_sub (Fin tp) (Fin (real P)) = Fin ti" by (simp add: d_sub_def js_sub_def ti(1))
  have "computeEMI_double (Fin (real P)) (round_double (real k / 100)) (Fin (real n)) =
       \<lparr>res_loanAmount = Fin (real P), monthlyEMI = Fin emi,
        totalInterest = Fin ti, totalPayment = Fin tp\<rparr>"
    unfolding A(1) computeEMI_double_def Let_def d1 d2 ad pw m1 m2 sb dv tpf tif
    using R0 by (simp add: js_strict_eq_def)
  then show ?thesis using emi0 tp_lo tp(2,3) ti(2) by (rule that)
qed


lemma tiny_power: "(2::real) powi (- 1075) \<le> 1 / 10 ^ 20"
proof -
  have "(2::real) powi (- 1075) \<le> 2 powi (- 100)" by (intro power_int_increasing) simp_all
  also have "\<dots> = 1 / 2 ^ 100" by (simp add: power_int_minus field_simps)
  also have "\<dots> \<le> 1 / 10 ^ 20" by (intro divide_left_mono) simp_all
  finally show ?thesis .
qed

lemma tolerance_on_admitted_numbers:
  fixes P k n :: nat
  assumes "1 \<le> P" and "P \<le> 9999999" and "1 \<le> k" and "k \<le> 10000" and "1 \<le> n" and "n \<le> 360"
  shows "\<exists>emi ti tp.
      computeEMI_double (Fin (real P)) (round_double (real k / 100)) (Fin (real n)) =
        \<lparr>res_loanAmount = Fin (real P), monthlyEMI = Fin emi,
         totalInterest = Fin ti, totalPayment = Fin tp\<rparr>
    \<and> 0 < tp
    \<and> \<bar>tp - (real P + ti)\<bar> \<le> tp / 10 ^ 9
    \<and> \<bar>tp - emi * real n\<bar> \<le> tp / 10 ^ 9"
proof -
  obtain emi ti tp where h:
    "computeEMI_double (Fin (real P)) (round_double (real k / 100)) (Fin (real n)) =
       \<lparr>res_loanAmount = Fin (real P), monthlyEMI = Fin emi,
        totalInterest = Fin ti, totalPayment = Fin tp\<rparr>"
    "0 < emi" "6 * real P / 1000000 \<le> tp"
    "\<bar>tp - emi * real n\<bar> \<le> emi * real n / 2 ^ 53" "99 / 100 * (emi * real n) \<le> tp"
    "\<bar>ti - (tp - real P)\<bar> \<le> \<bar>tp - real P\<bar> / 2 ^ 53 + 2 powi (- 1075)"
    using admitted_chain [OF assms] by blast
  have P1: "1 \<le> real P" using assms(1) by simp
  have tp_lo: "6 / 1000000 \<le> tp" using h(3) P1 by argo
  have tp0: "0 < tp" using tp_lo by argo
  have "emi * real n \<le> 100 / 99 * tp" using h(5) by argo
  then have "emi * real n / 2 ^ 53 \<le> 100 / 99 * tp / 2 ^ 53"
    by (intro divide_right_mono) simp_all
  also have "\<dots> \<le> tp / 10 ^ 9" using tp0 by simp
  finally have two: "\<bar>tp - emi * real n\<bar> \<le> tp / 10 ^ 9" using h(4) by linarith
  have "real P \<le> 1000000 / 6 * tp" using h(3) by argo
  then have "\<bar>tp - real P\<bar> \<le> 166668 * tp" using tp0 P1 by (simp add: abs_le_iff)
  then have "\<bar>tp - real P\<bar> / 2 ^ 53 \<le> 166668 * tp / 2 ^ 53"
    by (intro divide_right_mono) simp_all
  also have "\<dots> \<le> tp / 10 ^ 10" using tp0 by simp
  finally have a: "\<bar>tp - real P\<bar> / 2 ^ 53 \<le> tp / 10 ^ 10" .
  have "(1::real) / 10 ^ 20 \<le> 6 / 1000000 / 10 ^ 10" by simp
  also have "\<dots> \<le> tp / 10 ^ 10" using tp_lo by (intro divide_right_mono) simp_all
  finally have b: "2 powi (- 1075) \<le> tp / 10 ^ 10" using tiny_power by linarith
  have "\<bar>tp - (real P + ti)\<bar> = \<bar>ti - (tp - real P)\<bar>" by argo
  also have "\<dots> \<le> tp / 10 ^ 10 + tp / 10 ^ 10" using h(6) a b by linarith
  also have "\<dots> \<le> tp / 10 ^ 9" using tp0 by simp
  finally have one: "\<bar>tp - (real P + ti)\<bar> \<le> tp / 10 ^ 9" .
  show ?thesis using h(1) tp0 one two by blast
qed

lemma round_half_even_of_int: "round_half_even (of_int i) = i"
  by (simp add: round_half_even_def Let_def)

lemma round_double_nat:
  fixes n :: nat
  assumes "1 \<le> n" and "n < 2 ^ 53"
  shows "round_double (real n) = Fin (real n)"
proof -
  define x where "x = real n"
  have x: "1 \<le> x" "x < 2 ^ 53" using assms by (simp_all add: x_def)
  have x0: "0 < x" using x(1) by linarith
  define e where "e = \<lfloor>log 2 x\<rfloor>"
  have b: "2 powi e \<le> x" "x < 2 powi (e + 1)"
    unfolding e_def using floor_log2_bounds [OF x0] by simp_all
  have e_lo: "0 \<le> e"
  proof (rule ccontr)
    assume "\<not> 0 \<le> e"
    then have "e + 1 \<le> 0" by simp
    then have "(2::real) powi (e + 1) \<le> 2 powi 0" by (intro power_int_increasing) simp_all
    then show False using x(1) b(2) by simp
  qed
  have e_hi: "e \<le> 52"
  proof (rule ccontr)
    assume "\<not> e \<le> 52"
    then have "53 \<le> e" by simp
    then have "(2::real) powi 53 \<le> 2 powi e" by (intro power_int_increasing) simp_all
    then show False using x(2) b(1) by simp
  qed
  define d where "d = nat (52 - e)"
  have q: "(2::real) powi (e - 52) = 1 / 2 ^ d"
  proof -
    have "e - 52 = - int d" using e_hi by (simp add: d_def)
    then have "(2::real) powi (e - 52) = 2 powi (- int d)" by (simp only:)
    also have "\<dots> = 1 / 2 ^ d" by (simp add: power_int_minus field_simps)
    finally show ?thesis .
  qed
  have "x / (1 / 2 ^ d) = of_int (int n * 2 ^ d)" by (simp add: x_def)
  then have m: "round_half_even (x / (1 / 2 ^ d)) = int n * 2 ^ d"
    by (simp only: round_half_even_of_int)
  have y: "of_int (int n * 2 ^ d) * (1 / 2 ^ d) = x" by (simp add: x_def)
  have "x < 2 powi 1024"
  proof -
    have "(2::real) powi 53 \<le> 2 powi 1024" by (intro power_int_increasing) simp_all
    then show ?thesis using x(2) by simp
  qed
  then have no: "\<not> 2 powi 1024 \<le> x" by simp
  have ax: "\<bar>x\<bar> = x" using x0 by simp
  have "max e (- 1022) = e" using e_lo by simp
  then have mx: "max \<lfloor>log 2 x\<rfloor> (- 1022) = e" by (simp only: e_def)
  have "round_double x = Fin x"
    unfolding round_double_def Let_def ax mx q m y using x0 no by simp
  then show ?thesis by (simp add: x_def)
qed

lemma overflow_power:
  fixes x :: real
  assumes "10099 / 10000 \<le> x"
  shows "2 powi 1024 \<le> x ^ 100000"
proof -
  have x1: "1 \<le> x" "0 \<le> x" using assms by linarith+
  have "(2::real) \<le> (10099 / 10000) ^ 71"
    unfolding power_divide by (simp add: field_simps)
  also have "\<dots> \<le> x ^ 71" using assms by (intro power_mono) simp_all
  finally have "(2::real) ^ 1024 \<le> (x ^ 71) ^ 1024" by (intro power_mono) simp_all
  then have "(2::real) ^ 1024 \<le> x ^ 72704" by (simp flip: power_mult)
  moreover have "x ^ 72704 \<le> x ^ 100000" using x1(1) by (intro power_increasing) simp_all
  ultimately show ?thesis by simp
qed

subsection \<open>Concrete inputs\<close>

lemma scenario_power: "(807 / 800 :: real) ^ 60 = 807 ^ 60 / 800 ^ 60"
  by (simp only: power_divide)

lemma scenario_value:
  "monthlyEMI (computeEMI (Fin 500000) (Fin 10.5) (Fin 60)) =
     Fin (500000 * (10.5 / 12 / 100) * (1 + 10.5 / 12 / 100) ^ 60
            / ((1 + 10.5 / 12 / 100) ^ 60 - 1))"
  using computeEMI_positive_rate [of "10.5" 60 500000] by simp

lemma scenario_bounds:
  "(10746.95 :: real) < 500000 * (10.5 / 12 / 100) * (1 + 10.5 / 12 / 100) ^ 60
            / ((1 + 10.5 / 12 / 100) ^ 60 - 1)"
  "500000 * (10.5 / 12 / 100) * (1 + 10.5 / 12 / 100) ^ 60
            / ((1 + 10.5 / 12 / 100) ^ 60 - 1) < (10746.96 :: real)"
proof -
  have x: "(1 + 10.5 / 12 / 100 :: real) = 807 / 800" by simp
  have gt: "(0::real) < (807 / 800) ^ 60 - 1"
    using one_less_power [of "807 / 800 :: real" 60] by simp
  have lo: "(10746.95 :: real) * ((807 / 800) ^ 60 - 1) < 500000 * (10.5 / 12 / 100) * (807 / 800) ^ 60"
    unfolding scenario_power by (simp add: field_simps)
  have hi: "500000 * (10.5 / 12 / 100) * (807 / 800) ^ 60 < (10746.96 :: real) * ((807 / 800) ^ 60 - 1)"
    unfolding scenario_power by (simp add: field_simps)
  show "(10746.95 :: real) < 500000 * (10.5 / 12 / 100) * (1 + 10.5 / 12 / 100) ^ 60
            / ((1 + 10.5 / 12 / 100) ^ 60 - 1)"
    unfolding x using lo gt by (simp only: pos_less_divide_eq)
  show "500000 * (10.5 / 12 / 100) * (1 + 10.5 / 12 / 100) ^ 60
            / ((1 + 10.5 / 12 / 100) ^ 60 - 1) < (10746.96 :: real)"
    unfolding x using hi gt by (simp only: pos_divide_less_eq)
qed

lemma policy_eval:
  "amount_text_ok ''10.5'' = False" "rate_text_ok ''10.5'' = True" "tenure_text_ok ''10.5'' = False"
  by (simp_all add: amount_text_ok_def rate_text_ok_def tenure_text_ok_def is_decimal2_def
      decimal_value_def int_part_def frac_part_def is_digit_def digits_value_def digit_val_def)

lemma example_fields:
  "run [ChangeLoanAmount ''1000'', ChangeInterestRate ''12'', ChangeLoanTenure ''2''] initial_state
     = \<lparr>loanAmount = ''1000'', annualInterestRate = ''12'', loanTenure = ''2'',
        result = None, showResult = False\<rparr>"
  by (simp add: run_def initial_state_def handleLoanAmountChange_def
      handleInterestRateChange_def handleLoanTenureChange_def loanAmount_accepts_def
      interestRate_accepts_def loanTenure_accepts_def test_digits_def test_decimal2_def
      parseInt_def unsigned_int_def parse_eval)

lemma example_valid:
  "validateInputs
     \<lparr>loanAmount = ''1000'', annualInterestRate = ''12'', loanTenure = ''2'',
      result = None, showResult = False\<rparr> = Inr ()"
  by (simp add: validateInputs_def isNaN_def parse_eval)

lemma example2_accepted:
  "fields_accepted
     \<lparr>loanAmount = ''1200'', annualInterestRate = ''12'', loanTenure = ''2'',
      result = None, showResult = False\<rparr>"
  "fields_accepted
     \<lparr>loanAmount = ''1200'', annualInterestRate = ''24'', loanTenure = ''2'',
      result = None, showResult = False\<rparr>"
  by (simp_all add: fields_accepted_def loanAmount_accepts_def
      interestRate_accepts_def loanTenure_accepts_def test_digits_def test_decimal2_def
      parseInt_def unsigned_int_def parse_eval)

lemma example2_valid:
  "validateInputs
     \<lparr>loanAmount = ''1200'', annualInterestRate = ''12'', loanTenure = ''2'',
      result = None, showResult = False\<rparr> = Inr ()"
  "validateInputs
     \<lparr>loanAmount = ''1200'', annualInterestRate = ''24'', loanTenure = ''2'',
      result = None, showResult = False\<rparr> = Inr ()"
  by (simp_all add: validateInputs_def isNaN_def parse_eval)

lemma example2_parse:
  "parseFloat ''1200'' = Fin 1200" "parseFloat ''12'' = Fin 12" "parseFloat ''2'' = Fin 2"
  by (simp_all add: parse_eval)

section \<open>The claims\<close>

subsection \<open>C1: validation and a rate of zero\<close>

text \<open>
  C1 says that validation fails with \<open>NonPositive\<close> exactly when the principal is at most
  0, the rate is below 0 or the tenure is at most 0, so that a rate of 0 is accepted.
  The source tests \<^verbatim>\<open>rate <= 0\<close>: for the principal 1000, the rate 0 and the tenure 12
  the validation fails with \<open>NonPositive\<close>, and a press of the button stores no result.
\<close>

theorem C1_zero_rate_is_rejected:
  "validateInputs
     \<lparr>loanAmount = ''1000'', annualInterestRate = ''0'', loanTenure = ''12'',
      result = None, showResult = False\<rparr> = Inl NonPositive
   \<and> calculateEMI
     \<lparr>loanAmount = ''1000'', annualInterestRate = ''0'', loanTenure = ''12'',
      result = None, showResult = False\<rparr>
     = \<lparr>loanAmount = ''1000'', annualInterestRate = ''0'', loanTenure = ''12'',
        result = None, showResult = False\<rparr>"
  by (simp add: calculateEMI_def validateInputs_def isNaN_def parse_eval)

subsection \<open>C2: the zero-interest branch\<close>

text \<open>
  The branch \<^verbatim>\<open>if (R === 0)\<close> of \<^verbatim>\<open>calculateEMI\<close> needs a rate that parses to 0. No state
  with such a rate passes the validation, which \<^verbatim>\<open>calculateEMI\<close> runs first.
\<close>

lemma valid_rate_is_not_zero:
  assumes "validateInputs s = Inr ()"
  shows "parseFloat (annualInterestRate s) \<noteq> Fin 0"
proof
  assume "parseFloat (annualInterestRate s) = Fin 0"
  then have "validateInputs s \<noteq> Inr ()"
    by (simp add: validateInputs_def Let_def)
  then show False using assms by simp
qed

text \<open>
  C2 says that for the rate 0 the calculation returns the installment principal / N, the
  total interest 0 and the total payment equal to the principal, and that the principal
  100000 with the rate 0 and the tenure 12 gives the installment 8333.33. In the source
  the fields 100000, 0 and 12 fail the validation with \<open>NonPositive\<close>; a press of the button
  stores no result and leaves the result hidden.
\<close>

theorem C2_zero_rate_stores_no_result:
  "validateInputs
     \<lparr>loanAmount = ''100000'', annualInterestRate = ''0'', loanTenure = ''12'',
      result = None, showResult = False\<rparr> = Inl NonPositive
   \<and> result
       (calculateEMI
          \<lparr>loanAmount = ''100000'', annualInterestRate = ''0'', loanTenure = ''12'',
           result = None, showResult = False\<rparr>) = None
   \<and> showResult
       (calculateEMI
          \<lparr>loanAmount = ''100000'', annualInterestRate = ''0'', loanTenure = ''12'',
           result = None, showResult = False\<rparr>) = False"
  by (simp add: calculateEMI_def validateInputs_def isNaN_def parse_eval)

subsection \<open>C3: the installment formula\<close>




subsection \<open>C4: total payment, principal and interest\<close>

text \<open>
  C4 says that for every principal \<open>P > 0\<close>, rate and tenure \<open>N \<ge> 1\<close> the result satisfies
  total payment = principal + total interest and total payment = installment times \<open>N\<close>,
  within a relative tolerance of \<open>10\<^sup>-\<^sup>9\<close>. As stated, for every tenure, this fails on the
  doubles of the source: for the principal 1000, the rate 12 and the tenure 100000 the
  power \<open>(1 + R) ^ N\<close> exceeds every double, \<^verbatim>\<open>Math.pow\<close> returns \<open>+Infinity\<close>, numerator and
  denominator are both \<open>+Infinity\<close>, and installment, total payment and total interest
  are \<open>NaN\<close>, which is equal to nothing.
\<close>

theorem C4_counterexample:
  "computeEMI_double (Fin 1000) (Fin 12) (Fin 100000) =
     \<lparr>res_loanAmount = Fin 1000, monthlyEMI = NaN, totalInterest = NaN, totalPayment = NaN\<rparr>"
proof -
  have d1: "d_div (Fin 12) (Fin 12) = Fin 1" by (simp add: d_div_def round_double_one)
  obtain R where R: "round_double (1 / 100) = Fin R" "\<bar>R - 1 / 100\<bar> \<le> 1 / 100 / 2 ^ 53"
    using round_double_close [OF in_range_small [of "1 / 100"]] by force
  have "(1::real) / 100 / 2 ^ 53 \<le> 1 / 10000000" by simp
  then have Rb: "99999 / 10000000 \<le> R" "R \<le> 100001 / 10000000" using R(2) by linarith+
  have R0: "R \<noteq> 0" using Rb(1) by auto
  have d2: "d_div (Fin 1) (Fin 100) = Fin R" by (simp add: d_div_def R(1))
  obtain x where x: "round_double (1 + R) = Fin x" "\<bar>x - (1 + R)\<bar> \<le> (1 + R) / 2 ^ 53"
    using round_double_close [OF in_range_small [of "1 + R"]] Rb by force
  have "(1 + R) / 2 ^ 53 \<le> 1 / 10000000" using Rb by simp
  then have xb: "10099 / 10000 \<le> x" using x(2) Rb by linarith
  have x0: "x \<noteq> 0" using xb by auto
  have ad: "d_add (Fin 1) (Fin R) = Fin x" by (simp add: d_add_def x(1))
  have "Math_pow (Fin x) (Fin (real (100000::nat))) = Fin (x ^ 100000)"
    using x0 by (intro Math_pow_Fin_nat) simp_all
  then have "Math_pow (Fin x) (Fin 100000) = Fin (x ^ 100000)" by simp
  then have pw: "Math_pow_double (Fin x) (Fin 100000) = PInf"
    unfolding Math_pow_double_def
    using round_double_overflow [OF overflow_power [OF xb]] by (simp del: Math_pow.simps)
  have PR: "(1::real) / 1000000000 \<le> 1000 * R" "1000 * R \<le> 1000000" using Rb by linarith+
  obtain c where c: "round_double (1000 * R) = Fin c" "0 < c"
    using round_double_close [OF in_range_small [OF PR]] by blast
  have m1: "d_mul (Fin 1000) (Fin R) = Fin c" by (simp add: d_mul_def c(1))
  have m2: "d_mul (Fin c) PInf = PInf" using c(2) by (simp add: d_mul_def js_inf_def)
  have sb: "d_sub PInf (Fin 1) = PInf" by (simp add: d_sub_def js_sub_def)
  have dv: "d_div PInf PInf = NaN" by (simp add: d_div_def)
  have tp: "d_mul NaN (Fin 100000) = NaN" by (simp add: d_mul_def)
  have ti: "d_sub NaN (Fin 1000) = NaN" by (simp add: d_sub_def js_sub_def)
  show ?thesis
    unfolding computeEMI_double_def Let_def d1 d2 ad pw m1 m2 sb dv tp ti
    using R0 by (simp add: js_strict_eq_def)
qed

text \<open>
  C4, amended to the inputs the program gives the calculation. In a state whose three
  fields the change handlers accept and whose validation succeeds, the calculation on
  doubles (every operation rounded to the nearest double, the parsed numbers being the
  doubles nearest to the decimal texts) returns finite numbers with a positive total
  payment \<open>tp\<close>, and both equations hold within \<open>tp / 10\<^sup>9\<close>: total payment differs from
  principal + total interest, and from installment times tenure, by at most that much.
  The rate of such a state is positive, so the branch for the rate 0 is not concerned.
\<close>

theorem C4_identities_within_tolerance:
  assumes "fields_accepted s" and "validateInputs s = Inr ()"
  shows "\<exists>P N emi ti tp.
      parseFloat (loanAmount s) = Fin P \<and> parseFloat (loanTenure s) = Fin N
    \<and> computeEMI_double (to_double (parseFloat (loanAmount s)))
        (to_double (parseFloat (annualInterestRate s)))
        (to_double (parseFloat (loanTenure s))) =
        \<lparr>res_loanAmount = Fin P, monthlyEMI = Fin emi,
         totalInterest = Fin ti, totalPayment = Fin tp\<rparr>
    \<and> 0 < tp
    \<and> \<bar>tp - (P + ti)\<bar> \<le> tp / 10 ^ 9
    \<and> \<bar>tp - emi * N\<bar> \<le> tp / 10 ^ 9"
proof -
  obtain P k n :: nat where h:
    "parseFloat (loanAmount s) = Fin (real P)" "1 \<le> P" "P \<le> 9999999"
    "parseFloat (annualInterestRate s) = Fin (real k / 100)" "1 \<le> k" "k \<le> 10000"
    "parseFloat (loanTenure s) = Fin (real n)" "1 \<le> n" "n \<le> 360"
    using admitted_inputs [OF assms] by blast
  have "P < 2 ^ 53" "n < 2 ^ 53" using h(3,9) by simp_all
  then have d: "round_double (real P) = Fin (real P)" "round_double (real n) = Fin (real n)"
    using h(2,8) by (simp_all only: round_double_nat)
  obtain emi ti tp where r:
    "computeEMI_double (Fin (real P)) (round_double (real k / 100)) (Fin (real n)) =
        \<lparr>res_loanAmount = Fin (real P), monthlyEMI = Fin emi,
         totalInterest = Fin ti, totalPayment = Fin tp\<rparr>"
    "0 < tp" "\<bar>tp - (real P + ti)\<bar> \<le> tp / 10 ^ 9" "\<bar>tp - emi * real n\<bar> \<le> tp / 10 ^ 9"
    using tolerance_on_admitted_numbers [OF h(2,3,5,6,8,9)] by blast
  have "computeEMI_double (to_double (parseFloat (loanAmount s)))
        (to_double (parseFloat (annualInterestRate s)))
        (to_double (parseFloat (loanTenure s))) =
        \<lparr>res_loanAmount = Fin (real P), monthlyEMI = Fin emi,
         totalInterest = Fin ti, totalPayment = Fin tp\<rparr>"
    unfolding h(1,4,7) to_double.simps d by (rule r(1))
  then show ?thesis using h(1,7) r(2,3,4) by blast
qed

theorem C4_identities_within_tolerance_witness:
  "\<exists>emi ti tp.
      computeEMI_double (to_double (Fin 1200)) (to_double (Fin 12)) (to_double (Fin 2)) =
        \<lparr>res_loanAmount = Fin 1200, monthlyEMI = Fin emi,
         totalInterest = Fin ti, totalPayment = Fin tp\<rparr>
    \<and> 0 < tp
    \<and> \<bar>tp - (1200 + ti)\<bar> \<le> tp / 10 ^ 9
    \<and> \<bar>tp - emi * 2\<bar> \<le> tp / 10 ^ 9"
  using C4_identities_within_tolerance [OF example2_accepted(1) example2_valid(1)]
  by (simp add: example2_parse)

subsection \<open>C5: the scenario 500000 at 10.5 percent over 60 months\<close>

text \<open>
  The claim's value, as stated, fails: the installment for the principal 500000, the
  rate 10.5 and the tenure 60 exceeds 10708.41 by more than 38.5.
\<close>

theorem C5_counterexample:
  "js_lt (Fin (10708.41 + 38.5)) (monthlyEMI (computeEMI (Fin 500000) (Fin 10.5) (Fin 60)))"
  unfolding scenario_value using scenario_bounds(1) by simp

text \<open>
  C5, amended: for the principal 500000, the rate 10.5 and the tenure 60 the
  installment is the value of the formula with \<open>R = 10.5 / 12 / 100\<close>, and that value lies
  strictly between 10746.95 and 10746.96.
\<close>

theorem C5_scenario_value:
  "monthlyEMI (computeEMI (Fin 500000) (Fin 10.5) (Fin 60)) =
     Fin (500000 * (10.5 / 12 / 100) * (1 + 10.5 / 12 / 100) ^ 60
            / ((1 + 10.5 / 12 / 100) ^ 60 - 1))
   \<and> js_lt (Fin 10746.95) (monthlyEMI (computeEMI (Fin 500000) (Fin 10.5) (Fin 60)))
   \<and> js_lt (monthlyEMI (computeEMI (Fin 500000) (Fin 10.5) (Fin 60))) (Fin 10746.96)"
  unfolding scenario_value using scenario_bounds by simp

subsection \<open>C6: the installment grows with the rate\<close>




subsection \<open>C7: a failed validation hides the result\<close>

text \<open>
  C7: in every state whose inputs fail the validation, with whichever of the three
  errors, a press of the button sets the visibility flag to false and changes nothing
  else: the stored result stays as it was, and no new result is produced. The alert
  shown is the message of the error.
\<close>

theorem C7_failure_hides_result:
  assumes "validateInputs s = Inl e"
  shows "showResult (calculateEMI s) = False
       \<and> result (calculateEMI s) = result s
       \<and> calculateEMI s = s\<lparr>showResult := False\<rparr>
       \<and> calculateEMI_alert s = Some (alert_message e)"
  using assms by (simp add: calculateEMI_def calculateEMI_alert_def)

theorem C7_failure_hides_result_witness:
  "calculateEMI
     \<lparr>loanAmount = [], annualInterestRate = ''10.5'', loanTenure = ''60'',
      result = Some (computeEMI (Fin 100) (Fin 12) (Fin 1)), showResult = True\<rparr>
   = \<lparr>loanAmount = [], annualInterestRate = ''10.5'', loanTenure = ''60'',
      result = Some (computeEMI (Fin 100) (Fin 12) (Fin 1)), showResult = False\<rparr>
   \<and> calculateEMI
     \<lparr>loanAmount = ''abc'', annualInterestRate = ''10.5'', loanTenure = ''60'',
      result = Some (computeEMI (Fin 100) (Fin 12) (Fin 1)), showResult = True\<rparr>
   = \<lparr>loanAmount = ''abc'', annualInterestRate = ''10.5'', loanTenure = ''60'',
      result = Some (computeEMI (Fin 100) (Fin 12) (Fin 1)), showResult = False\<rparr>
   \<and> calculateEMI
     \<lparr>loanAmount = ''-100'', annualInterestRate = ''10.5'', loanTenure = ''60'',
      result = Some (computeEMI (Fin 100) (Fin 12) (Fin 1)), showResult = True\<rparr>
   = \<lparr>loanAmount = ''-100'', annualInterestRate = ''10.5'', loanTenure = ''60'',
      result = Some (computeEMI (Fin 100) (Fin 12) (Fin 1)), showResult = False\<rparr>"
proof -
  have 1: "validateInputs
     \<lparr>loanAmount = [], annualInterestRate = ''10.5'', loanTenure = ''60'',
      result = Some (computeEMI (Fin 100) (Fin 12) (Fin 1)), showResult = True\<rparr>
     = Inl MissingField"
    by (simp add: validateInputs_def)
  have 2: "validateInputs
     \<lparr>loanAmount = ''abc'', annualInterestRate = ''10.5'', loanTenure = ''60'',
      result = Some (computeEMI (Fin 100) (Fin 12) (Fin 1)), showResult = True\<rparr>
     = Inl NotNumeric"
    by (simp add: validateInputs_def isNaN_def parse_eval)
  have 3: "validateInputs
     \<lparr>loanAmount = ''-100'', annualInterestRate = ''10.5'', loanTenure = ''60'',
      result = Some (computeEMI (Fin 100) (Fin 12) (Fin 1)), showResult = True\<rparr>
     = Inl NonPositive"
    by (simp add: validateInputs_def isNaN_def parse_eval)
  show ?thesis
    using C7_failure_hides_result [OF 1] C7_failure_hides_result [OF 2]
      C7_failure_hides_result [OF 3]
    by simp
qed

subsection \<open>C8: the change handlers keep the fields within the policy\<close>

text \<open>
  C8: each change handler stores the entered text exactly when it is within the policy
  of its field (empty, or a principal of at most seven digits and so at most 9999999; a
  decimal rate with at most two fraction digits and a value of at most 100; a tenure of
  digits with a value of at most 360) and leaves the state unchanged for every other
  text; so the three handlers preserve the policy of the three fields.
\<close>

theorem C8_handlers_keep_policy:
  assumes "fields_within_policy s"
  shows "handleLoanAmountChange v s = (if amount_text_ok v then s\<lparr>loanAmount := v\<rparr> else s)
       \<and> handleInterestRateChange v s = (if rate_text_ok v then s\<lparr>annualInterestRate := v\<rparr> else s)
       \<and> handleLoanTenureChange v s = (if tenure_text_ok v then s\<lparr>loanTenure := v\<rparr> else s)
       \<and> fields_within_policy (handleLoanAmountChange v s)
       \<and> fields_within_policy (handleInterestRateChange v s)
       \<and> fields_within_policy (handleLoanTenureChange v s)"
  using assms
  by (simp add: handleLoanAmountChange_def handleInterestRateChange_def
      handleLoanTenureChange_def loanAmount_accepts_iff interestRate_accepts_iff
      loanTenure_accepts_iff fields_within_policy_def)

theorem C8_handlers_keep_policy_witness:
  "fields_within_policy initial_state
   \<and> handleLoanAmountChange ''10.5'' initial_state = initial_state
   \<and> handleInterestRateChange ''10.5'' initial_state
       = initial_state\<lparr>annualInterestRate := ''10.5''\<rparr>
   \<and> handleLoanTenureChange ''10.5'' initial_state = initial_state
   \<and> fields_within_policy (handleInterestRateChange ''10.5'' initial_state)"
proof -
  have init: "fields_within_policy initial_state"
    by (simp add: fields_within_policy_def initial_state_def amount_text_ok_def
        rate_text_ok_def tenure_text_ok_def)
  note w = C8_handlers_keep_policy [OF init, of "''10.5''", unfolded policy_eval if_True if_False]
  show ?thesis using init w by blast
qed

subsection \<open>C9: a visible result is a stored, valid result\<close>

text \<open>
  C9: in the state after any sequence of events, if the visibility flag is true then the
  last press of the button found valid inputs, and the stored result is not null and is
  the result that press stored. An event turns the flag from false to true only when it
  is a press of the button with valid inputs, and then the state holds the result of
  that press.
\<close>

theorem C9_shown_result_is_valid:
  "(showResult (run evs initial_state) \<longrightarrow>
      (\<exists>evs0 evs1.
          evs = evs0 @ ClickCalculate # evs1 \<and> ClickCalculate \<notin> set evs1
        \<and> validateInputs (run evs0 initial_state) = Inr ()
        \<and> result (run evs initial_state) = result (calculateEMI (run evs0 initial_state))
        \<and> result (run evs initial_state) \<noteq> None))
   \<and> (showResult (handle e s) \<and> \<not> showResult s \<longrightarrow>
        e = ClickCalculate \<and> validateInputs s = Inr ()
        \<and> result (handle e s) = result (calculateEMI s) \<and> result (handle e s) \<noteq> None)"
proof (intro conjI)
  show "showResult (run evs initial_state) \<longrightarrow>
      (\<exists>evs0 evs1.
          evs = evs0 @ ClickCalculate # evs1 \<and> ClickCalculate \<notin> set evs1
        \<and> validateInputs (run evs0 initial_state) = Inr ()
        \<and> result (run evs initial_state) = result (calculateEMI (run evs0 initial_state))
        \<and> result (run evs initial_state) \<noteq> None)"
  proof (induction evs rule: rev_induct)
    case Nil
    show ?case by (simp add: run_Nil initial_state_def)
  next
    case (snoc e' evs)
    show ?case
    proof
      assume shown: "showResult (run (evs @ [e']) initial_state)"
      show "\<exists>evs0 evs1.
          evs @ [e'] = evs0 @ ClickCalculate # evs1 \<and> ClickCalculate \<notin> set evs1
        \<and> validateInputs (run evs0 initial_state) = Inr ()
        \<and> result (run (evs @ [e']) initial_state) = result (calculateEMI (run evs0 initial_state))
        \<and> result (run (evs @ [e']) initial_state) \<noteq> None"
      proof (cases "e' = ClickCalculate")
        case True
        have ok: "validateInputs (run evs initial_state) = Inr ()"
        proof (cases "validateInputs (run evs initial_state)")
          case (Inl err)
          then show ?thesis using shown True by (simp add: run_snoc calculateEMI_failure)
        next
          case (Inr u)
          then show ?thesis by simp
        qed
        have "evs @ [e'] = evs @ ClickCalculate # []" using True by simp
        moreover have "ClickCalculate \<notin> set []" by simp
        moreover have "result (run (evs @ [e']) initial_state)
            = result (calculateEMI (run evs initial_state))"
          using True by (simp add: run_snoc)
        moreover have "result (run (evs @ [e']) initial_state) \<noteq> None"
          using True calculateEMI_success [OF ok] by (simp add: run_snoc)
        ultimately show ?thesis using ok by blast
      next
        case False
        then have same: "showResult (run (evs @ [e']) initial_state) = showResult (run evs initial_state)"
          "result (run (evs @ [e']) initial_state) = result (run evs initial_state)"
          by (cases e'; simp add: run_snoc change_keeps_result)+
        from shown same(1) have "showResult (run evs initial_state)" by simp
        with snoc.IH obtain evs0 evs1 where
          h: "evs = evs0 @ ClickCalculate # evs1" "ClickCalculate \<notin> set evs1"
            "validateInputs (run evs0 initial_state) = Inr ()"
            "result (run evs initial_state) = result (calculateEMI (run evs0 initial_state))"
            "result (run evs initial_state) \<noteq> None"
          by blast
        have "evs @ [e'] = evs0 @ ClickCalculate # (evs1 @ [e'])" using h(1) by simp
        moreover have "ClickCalculate \<notin> set (evs1 @ [e'])" using h(2) False by auto
        ultimately show ?thesis using h(3,4,5) same(2) by metis
      qed
    qed
  qed
next
  show "showResult (handle e s) \<and> \<not> showResult s \<longrightarrow>
        e = ClickCalculate \<and> validateInputs s = Inr ()
        \<and> result (handle e s) = result (calculateEMI s) \<and> result (handle e s) \<noteq> None"
  proof (cases e)
    case ClickCalculate
    then show ?thesis
      by (cases "validateInputs s") (simp_all add: calculateEMI_def)
  qed (simp_all add: change_keeps_result)
qed

theorem C9_shown_result_is_valid_witness:
  "showResult
     (run [ChangeLoanAmount ''1000'', ChangeInterestRate ''12'', ChangeLoanTenure ''2'',
           ClickCalculate] initial_state)
   \<and> (\<exists>evs0 evs1.
          [ChangeLoanAmount ''1000'', ChangeInterestRate ''12'', ChangeLoanTenure ''2'',
           ClickCalculate] = evs0 @ ClickCalculate # evs1
        \<and> ClickCalculate \<notin> set evs1
        \<and> validateInputs (run evs0 initial_state) = Inr ()
        \<and> result
            (run [ChangeLoanAmount ''1000'', ChangeInterestRate ''12'',
                  ChangeLoanTenure ''2'', ClickCalculate] initial_state)
          = result (calculateEMI (run evs0 initial_state)))"
proof -
  have "run ([ChangeLoanAmount ''1000'', ChangeInterestRate ''12'', ChangeLoanTenure ''2'']
          @ [ClickCalculate]) initial_state
      = calculateEMI
          \<lparr>loanAmount = ''1000'', annualInterestRate = ''12'', loanTenure = ''2'',
           result = None, showResult = False\<rparr>"
    unfolding run_snoc example_fields by simp
  then have shown: "showResult
     (run [ChangeLoanAmount ''1000'', ChangeInterestRate ''12'', ChangeLoanTenure ''2'',
           ClickCalculate] initial_state)"
    using calculateEMI_success [OF example_valid] by simp
  show ?thesis
    using shown
      C9_shown_result_is_valid
        [of "[ChangeLoanAmount ''1000'', ChangeInterestRate ''12'', ChangeLoanTenure ''2'',
              ClickCalculate]" ClickCalculate initial_state]
    by blast
qed

subsection \<open>C10: the fields the handlers fill are numeric\<close>

text \<open>
  C10: when each field holds a value its change handler accepts, a field that is not
  empty never parses to NaN, so the validation never fails with \<open>NotNumeric\<close>; and after
  any sequence of events the fields are such values.
\<close>

theorem C10_not_numeric_unreachable:
  "(fields_accepted s \<longrightarrow>
       validateInputs s \<noteq> Inl NotNumeric
     \<and> (loanAmount s \<noteq> [] \<longrightarrow> \<not> isNaN (parseFloat (loanAmount s)))
     \<and> (annualInterestRate s \<noteq> [] \<longrightarrow> \<not> isNaN (parseFloat (annualInterestRate s)))
     \<and> (loanTenure s \<noteq> [] \<longrightarrow> \<not> isNaN (parseFloat (loanTenure s))))
   \<and> fields_accepted (run evs initial_state)
   \<and> validateInputs (run evs initial_state) \<noteq> Inl NotNumeric"
  using accepted_not_NotNumeric [of s] accepted_not_NotNumeric [OF fields_accepted_run [of evs]]
    fields_accepted_run [of evs]
  by (simp add: accepted_parse fields_accepted_def)

theorem C10_not_numeric_unreachable_witness:
  "fields_accepted
     \<lparr>loanAmount = ''1000'', annualInterestRate = ''12'', loanTenure = ''2'',
      result = None, showResult = False\<rparr>
   \<and> validateInputs
     \<lparr>loanAmount = ''1000'', annualInterestRate = ''12'', loanTenure = ''2'',
      result = None, showResult = False\<rparr> \<noteq> Inl NotNumeric
   \<and> \<not> isNaN (parseFloat ''1000'') \<and> \<not> isNaN (parseFloat ''12'') \<and> \<not> isNaN (parseFloat ''2'')
   \<and> validateInputs
       (run [ChangeLoanAmount ''1000'', ChangeInterestRate ''x'', ClickCalculate] initial_state)
       \<noteq> Inl NotNumeric"
proof -
  have acc: "fields_accepted
     \<lparr>loanAmount = ''1000'', annualInterestRate = ''12'', loanTenure = ''2'',
      result = None, showResult = False\<rparr>"
    by (simp add: fields_accepted_def loanAmount_accepts_def
      interestRate_accepts_def loanTenure_accepts_def test_digits_def test_decimal2_def
      parseInt_def unsigned_int_def parse_eval)
  show ?thesis
    using acc
      C10_not_numeric_unreachable
        [of "\<lparr>loanAmount = ''1000'', annualInterestRate = ''12'', loanTenure = ''2'',
              result = None, showResult = False\<rparr>"
            "[ChangeLoanAmount ''1000'', ChangeInterestRate ''x'', ClickCalculate]"]
    by simp
qed

end
